theory Spec2Isabelle
  imports Main
begin

section \<open>The conversion cascade (src/utils/pdfToWordConverter.js)\<close>

text \<open>
  The converters work on the file system and write to the console. Both are threaded
  through every call as a \<open>world\<close>: \<open>files\<close> maps a path to the size in bytes of the
  file stored there (\<open>None\<close>: no file), \<open>console\<close> is the sequence of lines printed with
  \<open>console.log\<close>. A JavaScript \<open>async\<close> function that may throw is a function from the world
  to a result and the next world; \<open>Inl msg\<close> is a thrown \<open>Error\<close> with message \<open>msg\<close>,
  \<open>Inr v\<close> a normal return of \<open>v\<close>.
\<close>

record world =
  files :: "string \<rightharpoonup> nat"
  console :: "string list"

type_synonym 'a io = "world \<Rightarrow> (string + 'a) \<times> world"

text \<open>A conversion strategy: \<open>(inputPdfPath, outputDocxPath)\<close> to the output path, or a throw.\<close>

type_synonym strategy = "string \<Rightarrow> string \<Rightarrow> string io"

definition consoleLog :: "string \<Rightarrow> world \<Rightarrow> world" where
  "consoleLog line w = w\<lparr>console := console w @ [line]\<rparr>"

text \<open>
  \<open>convertPdfToWord\<close>, lines 15 to 45. The four methods it calls through \<open>this\<close> are
  parameters here, in the order of the calls. The first three calls sit in a
  \<open>try\<close>/\<open>catch\<close> that prints the message and goes on; the fourth call is not guarded, so
  what it throws leaves \<open>convertPdfToWord\<close> unchanged.
\<close>

definition convertPdfToWord ::
  "strategy \<Rightarrow> strategy \<Rightarrow> strategy \<Rightarrow> strategy \<Rightarrow> string \<Rightarrow> string \<Rightarrow> string io" where
  "convertPdfToWord convertWithLibreOffice convertWithPdf2Docx convertWithAlternativeParsing
      convertWithEnhancedTextExtraction inputPdfPath outputDocxPath w0 =
   (let w1 = consoleLog ''Starting enhanced PDF to Word conversion...'' w0;
        w2 = consoleLog ''Attempting LibreOffice conversion with enhanced formatting...'' w1
    in case convertWithLibreOffice inputPdfPath outputDocxPath w2 of
      (Inr p1, w3) \<Rightarrow> (Inr p1, w3)
    | (Inl e1, w3) \<Rightarrow>
       (let w4 = consoleLog (''LibreOffice conversion failed: '' @ e1) w3;
            w5 = consoleLog ''Attempting pdf2docx conversion with enhanced formatting...'' w4
        in case convertWithPdf2Docx inputPdfPath outputDocxPath w5 of
          (Inr p2, w6) \<Rightarrow> (Inr p2, w6)
        | (Inl e2, w6) \<Rightarrow>
           (let w7 = consoleLog (''pdf2docx conversion failed: '' @ e2) w6;
                w8 = consoleLog ''Attempting alternative parsing methods...'' w7
            in case convertWithAlternativeParsing inputPdfPath outputDocxPath w8 of
              (Inr p3, w9) \<Rightarrow> (Inr p3, w9)
            | (Inl e3, w9) \<Rightarrow>
               (let w10 = consoleLog (''Alternative parsing failed: '' @ e3) w9;
                    w11 = consoleLog ''Falling back to enhanced text extraction...'' w10
                in convertWithEnhancedTextExtraction inputPdfPath outputDocxPath w11))))"

text \<open>The worlds in which each strategy of the cascade is started.\<close>

definition beforeLibreOffice :: "world \<Rightarrow> world" where
  "beforeLibreOffice w0 =
     consoleLog ''Attempting LibreOffice conversion with enhanced formatting...''
       (consoleLog ''Starting enhanced PDF to Word conversion...'' w0)"

definition beforePdf2Docx :: "string \<Rightarrow> world \<Rightarrow> world" where
  "beforePdf2Docx e1 w3 =
     consoleLog ''Attempting pdf2docx conversion with enhanced formatting...''
       (consoleLog (''LibreOffice conversion failed: '' @ e1) w3)"

definition beforeAlternativeParsing :: "string \<Rightarrow> world \<Rightarrow> world" where
  "beforeAlternativeParsing e2 w6 =
     consoleLog ''Attempting alternative parsing methods...''
       (consoleLog (''pdf2docx conversion failed: '' @ e2) w6)"

definition beforeEnhancedTextExtraction :: "string \<Rightarrow> world \<Rightarrow> world" where
  "beforeEnhancedTextExtraction e3 w9 =
     consoleLog ''Falling back to enhanced text extraction...''
       (consoleLog (''Alternative parsing failed: '' @ e3) w9)"

text \<open>Strategies for concrete runs: one that throws, one that writes an artifact.\<close>

definition throwing :: "string \<Rightarrow> strategy" where
  "throwing msg inputPdfPath outputDocxPath w = (Inl msg, w)"

definition writing :: "nat \<Rightarrow> strategy" where
  "writing bytes inputPdfPath outputDocxPath w =
     (Inr outputDocxPath, w\<lparr>files := (files w)(outputDocxPath \<mapsto> bytes)\<rparr>)"

definition emptyWorld :: world where
  "emptyWorld = \<lparr>files = Map.empty, console = []\<rparr>"

subsection \<open>The LibreOffice and pdf2docx strategies\<close>

text \<open>Decimal digits of a number, as a template literal prints \<open>${i + 1}\<close>.\<close>

fun showNat :: "nat \<Rightarrow> string" where
  "showNat n = (if n < 10 then [''0123456789'' ! n]
                else showNat (n div 10) @ [''0123456789'' ! (n mod 10)])"

declare showNat.simps [simp del]

text \<open>
  \<open>str.replace(pat, rep)\<close> with a string pattern: the first occurrence of \<open>pat\<close> is
  replaced, and a string without the pattern is returned as it is. (The replacement used
  by the converter, \<open>'.docx'\<close>, has no \<open>$\<close> in it.)
\<close>

fun replaceFirstStr :: "string \<Rightarrow> string \<Rightarrow> string \<Rightarrow> string" where
  "replaceFirstStr pat rep [] = (if pat = [] then rep else [])"
| "replaceFirstStr pat rep (c # r) =
     (if take (length pat) (c # r) = pat then rep @ drop (length pat) (c # r)
      else c # replaceFirstStr pat rep r)"

definition conversionMethods :: "string \<Rightarrow> string \<Rightarrow> string list" where
  \<open>conversionMethods outputDir inputPdfPath =
    [''soffice --headless --convert-to docx:"MS Word 2007 XML" --outdir "'' @ outputDir
        @ ''" "'' @ inputPdfPath @ ''"'',
     ''soffice --headless --convert-to docx:"Office Open XML Text" --outdir "'' @ outputDir
        @ ''" "'' @ inputPdfPath @ ''"'',
     ''soffice --headless --convert-to docx --outdir "'' @ outputDir
        @ ''" "'' @ inputPdfPath @ ''"'']\<close>

text \<open>
  The collaborators of \<open>convertWithLibreOffice\<close> are parameters: \<open>execAsync\<close> runs a command
  (with the timeout of 120000 ms, after which it throws) and returns \<open>(stdout, stderr)\<close>,
  \<open>move\<close> is \<open>fs.move(src, dest, {overwrite: true})\<close>, \<open>dirname\<close> is \<open>path.dirname\<close>.
  \<open>fs.existsSync\<close> reads \<open>files\<close>.

  \<open>libreOfficeLoop\<close> is the \<open>for\<close> loop of lines 63 to 91 on the commands still to try,
  \<open>i\<close> being the index of the first of them; \<open>i === conversionMethods.length - 1\<close> holds
  when no command is left after it. A command that returns without leaving the expected
  file falls out of the \<open>try\<close> block and the loop goes on.
\<close>

fun libreOfficeLoop ::
  "(string \<Rightarrow> (string \<times> string) io) \<Rightarrow> (string \<Rightarrow> string \<Rightarrow> unit io) \<Rightarrow> nat \<Rightarrow> string list
     \<Rightarrow> strategy" where
  "libreOfficeLoop execAsync move i [] inputPdfPath outputDocxPath w =
     (Inl ''All LibreOffice conversion methods failed'', w)"
| "libreOfficeLoop execAsync move i (command # rest) inputPdfPath outputDocxPath w =
     (let caught = (\<lambda>message w'.
            let w'' = consoleLog (''LibreOffice conversion method '' @ showNat (i + 1)
                                    @ '' failed: '' @ message) w'
            in if rest = [] then (Inl message, w'')
               else libreOfficeLoop execAsync move (i + 1) rest inputPdfPath outputDocxPath w'');
          w1 = consoleLog (''Attempting LibreOffice conversion method '' @ showNat (i + 1)
                             @ '': '' @ command) w
      in case execAsync command w1 of
        (Inl message, w2) \<Rightarrow> caught message w2
      | (Inr (stdout, stderr), w2) \<Rightarrow>
         (let w3 = (if stderr \<noteq> [] then consoleLog (''LibreOffice stderr: '' @ stderr) w2
                    else w2);
              w4 = consoleLog (''LibreOffice stdout: '' @ stdout) w3;
              expectedDocxPath = replaceFirstStr ''.pdf'' ''.docx'' inputPdfPath
          in if files w4 expectedDocxPath \<noteq> None then
               (case move expectedDocxPath outputDocxPath w4 of
                  (Inl message, w5) \<Rightarrow> caught message w5
                | (Inr u, w5) \<Rightarrow>
                   (Inr outputDocxPath,
                    consoleLog (''LibreOffice conversion method '' @ showNat (i + 1)
                                  @ '' successful'') w5))
             else libreOfficeLoop execAsync move (i + 1) rest inputPdfPath outputDocxPath w4))"

definition convertWithLibreOffice ::
  "(string \<Rightarrow> (string \<times> string) io) \<Rightarrow> (string \<Rightarrow> string \<Rightarrow> unit io) \<Rightarrow> (string \<Rightarrow> string)
     \<Rightarrow> strategy" where
  "convertWithLibreOffice execAsync move dirname inputPdfPath outputDocxPath w =
     (let outputDir = dirname outputDocxPath
      in libreOfficeLoop execAsync move 0 (conversionMethods outputDir inputPdfPath)
           inputPdfPath outputDocxPath w)"

text \<open>
  \<open>convertWithPdf2Docx\<close>, lines 99 to 142: \<open>convert\<close> stands for loading the module,
  building the \<open>Converter\<close> and \<open>converter.convert(outputDocxPath, options)\<close> with the
  fixed options. Whatever it leaves on disk, its normal return is the strategy's success.
\<close>

definition convertWithPdf2Docx :: "(string \<Rightarrow> string \<Rightarrow> unit io) \<Rightarrow> strategy" where
  "convertWithPdf2Docx convert inputPdfPath outputDocxPath w =
     (case convert inputPdfPath outputDocxPath w of
        (Inl message, w1) \<Rightarrow> (Inl message, w1)
      | (Inr u, w1) \<Rightarrow>
         (Inr outputDocxPath,
          consoleLog ''pdf2docx conversion successful with enhanced settings'' w1))"

text \<open>
  Collaborators for concrete runs. \<open>fsMove\<close> moves a file over the destination (the
  runs below move between two different paths);
  \<open>sofficeLeaving n\<close> is a LibreOffice run that ends normally, prints nothing and leaves
  a file of \<open>n\<close> bytes beside the input; \<open>sofficeIdle\<close> ends normally and leaves nothing;
  \<open>quietConvert\<close> is a pdf2docx run that ends normally and writes nothing.
\<close>

definition fsMove :: "string \<Rightarrow> string \<Rightarrow> unit io" where
  "fsMove src dest w =
     (case files w src of
        None \<Rightarrow> (Inl ''ENOENT: no such file or directory'', w)
      | Some bytes \<Rightarrow> (Inr (), w\<lparr>files := ((files w)(src := None))(dest \<mapsto> bytes)\<rparr>))"

definition sofficeLeaving :: "string \<Rightarrow> nat \<Rightarrow> string \<Rightarrow> (string \<times> string) io" where
  "sofficeLeaving path bytes command w =
     (Inr ([], []), w\<lparr>files := (files w)(path \<mapsto> bytes)\<rparr>)"

definition sofficeIdle :: "string \<Rightarrow> (string \<times> string) io" where
  "sofficeIdle command w = (Inr ([], []), w)"

definition quietConvert :: "string \<Rightarrow> string \<Rightarrow> unit io" where
  "quietConvert inputPdfPath outputDocxPath w = (Inr (), w)"

definition tmpDir :: "string \<Rightarrow> string" where
  "tmpDir p = ''/tmp''"

definition afterTimeout :: world where
  "afterTimeout = beforePdf2Docx ''Command timed out'' (beforeLibreOffice emptyWorld)"

subsection \<open>The run of the LibreOffice commands\<close>

text \<open>
  The worlds of one pass through the loop of \<open>convertWithLibreOffice\<close>, for the command
  of index \<open>k\<close>: \<open>attempting\<close> is the world in which the command is run, \<open>afterOutput\<close> the
  world after the lines printed for its \<open>stderr\<close> and \<open>stdout\<close>, \<open>afterFailure\<close> the world
  after the line printed by the \<open>catch\<close>.
\<close>

definition attempting :: "nat \<Rightarrow> string \<Rightarrow> world \<Rightarrow> world" where
  "attempting k command w =
     consoleLog (''Attempting LibreOffice conversion method '' @ showNat (k + 1)
                   @ '': '' @ command) w"

definition afterOutput :: "string \<Rightarrow> string \<Rightarrow> world \<Rightarrow> world" where
  "afterOutput stdout stderr w2 =
     consoleLog (''LibreOffice stdout: '' @ stdout)
       (if stderr \<noteq> [] then consoleLog (''LibreOffice stderr: '' @ stderr) w2 else w2)"

definition afterFailure :: "nat \<Rightarrow> string \<Rightarrow> world \<Rightarrow> world" where
  "afterFailure k message w =
     consoleLog (''LibreOffice conversion method '' @ showNat (k + 1)
                   @ '' failed: '' @ message) w"

text \<open>
  A command that is not the last one is passed over in two cases: it throws (the \<open>catch\<close>
  prints the message and the loop goes on), or it ends without error and leaves no file
  at the expected path. \<open>passedOver\<close> runs the commands of a list, numbered from \<open>k\<close>, as
  long as they are passed over: \<open>Some\<close> of the world behind the last of them, and \<open>None\<close>
  when one of them ends without error and leaves a file.
\<close>

fun passedOver ::
  "(string \<Rightarrow> (string \<times> string) io) \<Rightarrow> string \<Rightarrow> nat \<Rightarrow> string list \<Rightarrow> world \<Rightarrow> world option"
  where
  "passedOver execAsync expected k [] w = Some w"
| "passedOver execAsync expected k (command # rest) w =
     (case execAsync command (attempting k command w) of
        (Inl message, w2) \<Rightarrow>
          passedOver execAsync expected (k + 1) rest (afterFailure k message w2)
      | (Inr (stdout, stderr), w2) \<Rightarrow>
          (if files w2 expected = None
           then passedOver execAsync expected (k + 1) rest (afterOutput stdout stderr w2)
           else None))"

text \<open>
  Further collaborators for concrete runs: \<open>sofficeOnly known path n\<close> is a LibreOffice
  that leaves a file of \<open>n\<close> bytes at \<open>path\<close> for the command \<open>known\<close> and nothing for any
  other command, ending normally each time; \<open>sofficeMissing\<close> throws for every command.
\<close>

definition sofficeOnly :: "string \<Rightarrow> string \<Rightarrow> nat \<Rightarrow> string \<Rightarrow> (string \<times> string) io" where
  "sofficeOnly known path bytes command w =
     (if command = known then (Inr ([], []), w\<lparr>files := (files w)(path \<mapsto> bytes)\<rparr>)
      else (Inr ([], []), w))"

definition sofficeMissing :: "string \<Rightarrow> (string \<times> string) io" where
  "sofficeMissing command w = (Inl ''soffice: not found'', w)"

section \<open>Text and regular expressions\<close>

text \<open>
  A JavaScript string is modelled as a list of 8-bit characters: the model covers texts
  whose code units are below 256, and the length of the list is the \<open>length\<close> of the
  string. The white space of \<open>\s\<close> and of \<open>trim\<close> in that range is TAB, LF, VT, FF, CR,
  SPACE and NBSP.
\<close>

definition isSpace :: "char \<Rightarrow> bool" where
  "isSpace c = (c \<in> set [CHR 0x09, CHR 0x0A, CHR 0x0B, CHR 0x0C, CHR 0x0D, CHR '' '', CHR 0xA0])"

definition trim :: "string \<Rightarrow> string" where
  "trim s = rev (dropWhile isSpace (rev (dropWhile isSpace s)))"

definition startsWith :: "string \<Rightarrow> string \<Rightarrow> bool" where
  "startsWith s pat = (take (length pat) s = pat)"

definition endsWith :: "string \<Rightarrow> string \<Rightarrow> bool" where
  "endsWith s pat = (length pat \<le> length s \<and> drop (length s - length pat) s = pat)"

fun includesStr :: "string \<Rightarrow> string \<Rightarrow> bool" where
  "includesStr [] pat = (pat = [])"
| "includesStr (c # r) pat = (startsWith (c # r) pat \<or> includesStr r pat)"

text \<open>\<open>str.split(sep)\<close> for a separator of one character; \<open>''.split(sep)\<close> is \<open>['']\<close>.\<close>

fun splitOn :: "char \<Rightarrow> string \<Rightarrow> string list" where
  "splitOn sep [] = [[]]"
| "splitOn sep (c # r) =
     (if c = sep then [] # splitOn sep r
      else (case splitOn sep r of [] \<Rightarrow> [[c]] | l # ls \<Rightarrow> (c # l) # ls))"

fun joinWith :: "string \<Rightarrow> string list \<Rightarrow> string" where
  "joinWith sep [] = []"
| "joinWith sep [l] = l"
| "joinWith sep (l # m # ls) = l @ sep @ joinWith sep (m # ls)"

text \<open>
  The regular expressions of the program are sequences of character classes, each taken
  once or under one of the greedy quantifiers \<open>*\<close>, \<open>+\<close>, \<open>?\<close>; one of them has a capture
  group. An \<open>Item\<close> holds the class, the quantifier and whether the item lies inside
  capture group 1.

  \<open>matchHere re s\<close> is the match of \<open>re\<close> at the start of \<open>s\<close>, as the backtracking matcher
  of JavaScript finds it: the number of characters matched and the text captured by
  group 1. A quantified item first takes as many characters as it can and gives them
  back one by one while the rest of the pattern fails.
\<close>

datatype quant = One | Star | Plus | Opt

datatype item = Item "char \<Rightarrow> bool" quant bool

definition took :: "bool \<Rightarrow> char \<Rightarrow> nat \<times> string \<Rightarrow> nat \<times> string" where
  "took inGroup c m = (Suc (fst m), if inGroup then c # snd m else snd m)"

fun matchHere :: "item list \<Rightarrow> string \<Rightarrow> (nat \<times> string) option" where
  "matchHere [] s = Some (0, [])"
| "matchHere (Item p One g # ps) [] = None"
| "matchHere (Item p One g # ps) (c # r) =
     (if p c then map_option (took g c) (matchHere ps r) else None)"
| "matchHere (Item p Plus g # ps) [] = None"
| "matchHere (Item p Plus g # ps) (c # r) =
     (if p c then map_option (took g c) (matchHere (Item p Star g # ps) r) else None)"
| "matchHere (Item p Star g # ps) [] = matchHere ps []"
| "matchHere (Item p Star g # ps) (c # r) =
     (if p c then
        (case matchHere (Item p Star g # ps) r of
           Some m \<Rightarrow> Some (took g c m)
         | None \<Rightarrow> matchHere ps (c # r))
      else matchHere ps (c # r))"
| "matchHere (Item p Opt g # ps) [] = matchHere ps []"
| "matchHere (Item p Opt g # ps) (c # r) =
     (if p c then
        (case matchHere ps r of
           Some m \<Rightarrow> Some (took g c m)
         | None \<Rightarrow> matchHere ps (c # r))
      else matchHere ps (c # r))"

text \<open>An alternation \<open>a|b\<close>: the first alternative that matches here.\<close>

fun matchAlt :: "item list list \<Rightarrow> string \<Rightarrow> (nat \<times> string) option" where
  "matchAlt [] s = None"
| "matchAlt (re # res) s =
     (case matchHere re s of Some m \<Rightarrow> Some m | None \<Rightarrow> matchAlt res s)"

text \<open>\<open>re.test(s)\<close> for a pattern without anchor: a match at some position.\<close>

fun test :: "item list \<Rightarrow> string \<Rightarrow> bool" where
  "test re [] = (matchHere re [] \<noteq> None)"
| "test re (c # r) = (matchHere re (c # r) \<noteq> None \<or> test re r)"

text \<open>
  The scans below go through a text from left to right, as a regular expression with
  the \<open>g\<close> flag does: where the pattern matches, the match is taken and the scan goes on
  behind it; elsewhere it moves on by one character. No pattern of the program matches
  the empty string (each has an item that takes a character), so the scans only act on
  matches of one character or more.

  \<open>execAll\<close> is the loop \<open>while ((match = re.exec(text)) !== null)\<close>: the texts captured by
  group 1 in the successive matches.
\<close>

fun execAll :: "item list \<Rightarrow> string \<Rightarrow> string list" where
  "execAll re [] = []"
| "execAll re (c # r) =
     (case matchHere re (c # r) of
        Some (Suc n, captured) \<Rightarrow> captured # execAll re (drop n r)
      | _ \<Rightarrow> execAll re r)"

text \<open>
  \<open>GetSubstitution\<close> for a pattern without capture groups: in the replacement text
  \<open>$$\<close> stands for \<open>$\<close>, \<open>$&\<close> for the matched text, \<open>$`\<close> for the text before the match and
  \<open>$'\<close> for the text behind it; any other \<open>$\<close> stands for itself.
\<close>

fun getSubstitution :: "string \<Rightarrow> string \<Rightarrow> string \<Rightarrow> string \<Rightarrow> string" where
  "getSubstitution matched scanned behind [] = []"
| "getSubstitution matched scanned behind [c] = [c]"
| "getSubstitution matched scanned behind (c # d # t) =
     (if c = CHR ''$'' \<and> d = CHR ''$'' then CHR ''$'' # getSubstitution matched scanned behind t
      else if c = CHR ''$'' \<and> d = CHR ''&'' then matched @ getSubstitution matched scanned behind t
      else if c = CHR ''$'' \<and> d = CHR 0x60 then scanned @ getSubstitution matched scanned behind t
      else if c = CHR ''$'' \<and> d = CHR 0x27 then behind @ getSubstitution matched scanned behind t
      else c # getSubstitution matched scanned behind (d # t))"

text \<open>
  \<open>text.replace(re, replacement)\<close> with the \<open>g\<close> flag; \<open>scanned\<close> is the text already
  scanned, which \<open>$`\<close> refers to.
\<close>

fun replaceAll :: "item list \<Rightarrow> string \<Rightarrow> string \<Rightarrow> string \<Rightarrow> string" where
  "replaceAll re replacement scanned [] = []"
| "replaceAll re replacement scanned (c # r) =
     (case matchHere re (c # r) of
        Some (Suc n, captured) \<Rightarrow>
          getSubstitution (c # take n r) scanned (drop n r) replacement
            @ replaceAll re replacement (scanned @ c # take n r) (drop n r)
      | _ \<Rightarrow> c # replaceAll re replacement (scanned @ [c]) r)"

text \<open>\<open>text.split(re)\<close> for an alternation \<open>res\<close>; \<open>cell\<close> is the cell being read.\<close>

fun splitRe :: "item list list \<Rightarrow> string \<Rightarrow> string \<Rightarrow> string list" where
  "splitRe res cell [] = [cell]"
| "splitRe res cell (c # r) =
     (case matchAlt res (c # r) of
        Some (Suc n, captured) \<Rightarrow> cell # splitRe res [] (drop n r)
      | _ \<Rightarrow> splitRe res (cell @ [c]) r)"

text \<open>The character classes of the patterns.\<close>

definition isChr :: "char \<Rightarrow> char \<Rightarrow> bool" where
  "isChr a c = (c = a)"

definition isNotChr :: "char \<Rightarrow> char \<Rightarrow> bool" where
  "isNotChr a c = (c \<noteq> a)"

definition isDigit :: "char \<Rightarrow> bool" where
  "isDigit c = (c \<in> set ''0123456789'')"

definition isUpperAZ :: "char \<Rightarrow> bool" where
  "isUpperAZ c = (c \<in> set ''ABCDEFGHIJKLMNOPQRSTUVWXYZ'')"

definition isLowerAZ :: "char \<Rightarrow> bool" where
  "isLowerAZ c = (c \<in> set ''abcdefghijklmnopqrstuvwxyz'')"

text \<open>\<open>.\<close> matches every character but a line terminator.\<close>

definition dot :: "char \<Rightarrow> bool" where
  "dot c = (c \<noteq> CHR 0x0A \<and> c \<noteq> CHR 0x0D)"

text \<open>
  \<open>toUpperCase\<close>. The upper-case form of a character of this model may lie beyond the
  model or be two characters long, so the result is given as the list of its code units:
  the letters \<open>a\<close> to \<open>z\<close> (97 to 122) and the Latin-1 letters 224 to 254, but for the
  division sign 247, move down by 32; the sharp s (223) becomes \<open>SS\<close>; the micro sign
  (181) becomes U+039C and \<open>y\<close> with diaeresis (255) becomes U+0178; every other character
  is its own upper-case form. \<open>codeUnits\<close> gives the code units of a text of the model, so
  that \<open>line === line.toUpperCase()\<close> is \<open>codeUnits line = toUpperCase line\<close>.
\<close>

definition codeUnits :: "string \<Rightarrow> nat list" where
  "codeUnits s = map of_char s"

definition upperUnits :: "char \<Rightarrow> nat list" where
  "upperUnits c =
     (let n = of_char c in
      if (97 \<le> n \<and> n \<le> 122) \<or> (224 \<le> n \<and> n \<le> 254 \<and> n \<noteq> 247) then [n - 32]
      else if n = 223 then [83, 83]
      else if n = 181 then [924]
      else if n = 255 then [376]
      else [n])"

definition toUpperCase :: "string \<Rightarrow> nat list" where
  "toUpperCase s = concat (map upperUnits s)"

section \<open>The variable engine (src/utils/docxProcessor.js)\<close>

subsection \<open>Extraction\<close>

text \<open>\<open>variableRegex\<close>, line 19: \<open>/\{\{\s*([^}]+)\s*\}\}/g\<close>.\<close>

definition variableRegex :: "item list" where
  "variableRegex =
     [Item (isChr CHR ''{'') One False, Item (isChr CHR ''{'') One False, Item isSpace Star False,
      Item (isNotChr CHR ''}'') Plus True,
      Item isSpace Star False, Item (isChr CHR ''}'') One False, Item (isChr CHR ''}'') One False]"

text \<open>
  \<open>variables\<close> is a \<open>Set\<close>: it keeps each name once, in the order of the first insertion,
  which is the order of \<open>Array.from(variables)\<close>.
\<close>

definition addVariable :: "string \<Rightarrow> string list \<Rightarrow> string list" where
  "addVariable name variables = (if name \<in> set variables then variables else variables @ [name])"

text \<open>One \<open>while\<close> loop of lines 24 to 26 (and 36 to 38): \<open>variables.add(match[1].trim())\<close>.\<close>

definition scanVariables :: "string \<Rightarrow> string list \<Rightarrow> string list" where
  "scanVariables text variables =
     foldl (\<lambda>vs captured. addVariable (trim captured) vs) variables (execAll variableRegex text)"

text \<open>\<open>xml.replace(/<[^>]+>/g, '')\<close>, line 34.\<close>

definition tagRegex :: "item list" where
  "tagRegex = [Item (isChr CHR ''<'') One False, Item (isNotChr CHR ''>'') Plus False,
               Item (isChr CHR ''>'') One False]"

definition stripTags :: "string \<Rightarrow> string" where
  "stripTags xml = replaceAll tagRegex [] [] xml"

text \<open>
  The \<open>forEach\<close> over the header and footer files, lines 32 to 39. Each file is given by
  what \<open>f.asText()\<close> does for it: \<open>Inr xml\<close> when it returns the text, \<open>Inl msg\<close> when it
  throws. A throw ends the \<open>forEach\<close> and is caught by the \<open>catch\<close> of line 40; the names
  added before it stay in the set.
\<close>

fun scanHeaderFooter :: "(string + string) list \<Rightarrow> string list \<Rightarrow> string list" where
  "scanHeaderFooter [] variables = variables"
| "scanHeaderFooter (Inl message # fs) variables = variables"
| "scanHeaderFooter (Inr xml # fs) variables =
     scanHeaderFooter fs (scanVariables (stripTags xml) variables)"

text \<open>
  \<open>extractTextAndVariables\<close>, lines 13 to 52. The two readings of the file are parameters:
  \<open>body\<close> is what \<open>mammoth.extractRawText\<close> does (\<open>Inr (value, messages)\<close>, or a throw),
  \<open>headerFooter\<close> is the reading of the archive (\<open>Inl msg\<close> when \<open>fs.readFile\<close>,
  \<open>new PizZip\<close> or \<open>zip.file\<close> throws, else the header and footer files in the order of
  \<open>zip.file\<close>). The result is \<open>(text, variables, messages)\<close>.
\<close>

definition extractTextAndVariables ::
  "string + string \<times> 'm \<Rightarrow> string + (string + string) list \<Rightarrow> string + string \<times> string list \<times> 'm"
  where
  "extractTextAndVariables body headerFooter =
     (case body of
        Inl message \<Rightarrow> Inl (''Failed to extract text from DOCX: '' @ message)
      | Inr (text, messages) \<Rightarrow>
         (let variables = scanVariables text [];
              variables' = (case headerFooter of
                              Inl message \<Rightarrow> variables
                            | Inr fs \<Rightarrow> scanHeaderFooter fs variables)
          in Inr (text, variables', messages)))"

subsection \<open>Substitution in a text\<close>

text \<open>
  The values of a ValueMap: the primitive values of JavaScript. The numbers of the model
  are the safe integers, from \<open>-(2^53 - 1)\<close> to \<open>2^53 - 1\<close>: each of them is a number of
  JavaScript (a double) and prints as its decimal digits; \<open>NaN\<close> is a value of its own.
  A ValueMap is the list of its entries in the order of \<open>Object.keys\<close>, with distinct keys.
\<close>

typedef safeInteger = "{n :: int. - (2 ^ 53) < n \<and> n < 2 ^ 53}"
  morphisms integerOf safeInteger
  by (rule exI [of _ 0]) simp

datatype jsval = JUndefined | JNull | JBool bool | JNum safeInteger | JNaN | JStr string

text \<open>\<open>ToBoolean\<close>: the falsy values are \<open>undefined\<close>, \<open>null\<close>, \<open>false\<close>, \<open>0\<close>, \<open>NaN\<close> and \<open>''\<close>.\<close>

fun truthy :: "jsval \<Rightarrow> bool" where
  "truthy JUndefined = False"
| "truthy JNull = False"
| "truthy (JBool b) = b"
| "truthy (JNum n) = (integerOf n \<noteq> 0)"
| "truthy JNaN = False"
| "truthy (JStr s) = (s \<noteq> [])"

text \<open>\<open>ToString\<close>.\<close>

fun toString :: "jsval \<Rightarrow> string" where
  "toString JUndefined = ''undefined''"
| "toString JNull = ''null''"
| "toString (JBool b) = (if b then ''true'' else ''false'')"
| "toString (JNum n) =
     (if integerOf n < 0 then CHR ''-'' # showNat (nat (- integerOf n))
      else showNat (nat (integerOf n)))"
| "toString JNaN = ''NaN''"
| "toString (JStr s) = s"

text \<open>\<open>variables[variableName] || ''\<close>, line 65.\<close>

definition orEmpty :: "jsval \<Rightarrow> jsval" where
  "orEmpty v = (if truthy v then v else JStr [])"

text \<open>
  \<open>new RegExp(`\\{\\{\\s*${variableName}\\s*\\}\\}`, 'g')\<close>, line 64: the name is pasted
  into the source of the pattern, so its characters are read as a pattern. The part of
  the pattern language modelled is: a character without a meaning of its own stands for
  itself, \<open>.\<close> for any character but a line terminator, and either may be followed by one
  of \<open>*\<close>, \<open>+\<close>, \<open>?\<close>. For any other name (one with
  \<open>\\ ^ $ ( ) [ ] { } |\<close>, with a quantifier at its start or with two in a row)
  \<open>patternOfName\<close> is \<open>None\<close>: the constructor then throws a \<open>SyntaxError\<close> or builds a
  pattern outside this model.
\<close>

definition syntaxChars :: "char list" where
  "syntaxChars = ''^$.*+?()[]{}|'' @ [CHR 0x5C]"

definition quantChars :: "char list" where
  "quantChars = ''*+?''"

definition quantOf :: "char \<Rightarrow> quant" where
  "quantOf q = (if q = CHR ''*'' then Star else if q = CHR ''+'' then Plus else Opt)"

definition atomOf :: "char \<Rightarrow> char \<Rightarrow> bool" where
  "atomOf a = (if a = CHR ''.'' then dot else isChr a)"

fun patternOfName :: "string \<Rightarrow> item list option" where
  "patternOfName [] = Some []"
| "patternOfName [a] =
     (if a \<in> set syntaxChars \<and> a \<noteq> CHR ''.'' then None else Some [Item (atomOf a) One False])"
| "patternOfName (a # q # r) =
     (if a \<in> set syntaxChars \<and> a \<noteq> CHR ''.'' then None
      else if q \<in> set quantChars then
        (case r of
           [] \<Rightarrow> Some [Item (atomOf a) (quantOf q) False]
         | n # r' \<Rightarrow>
            if n \<in> set quantChars then None
            else map_option (\<lambda>ps. Item (atomOf a) (quantOf q) False # ps) (patternOfName r))
      else map_option (\<lambda>ps. Item (atomOf a) One False # ps) (patternOfName (q # r)))"

definition placeholderRegex :: "string \<Rightarrow> item list option" where
  "placeholderRegex variableName =
     map_option (\<lambda>ps.
        [Item (isChr CHR ''{'') One False, Item (isChr CHR ''{'') One False, Item isSpace Star False]
        @ ps @
        [Item isSpace Star False, Item (isChr CHR ''}'') One False, Item (isChr CHR ''}'') One False])
       (patternOfName variableName)"

text \<open>
  \<open>replaceVariables\<close>, lines 60 to 69: the \<open>forEach\<close> over \<open>Object.keys(variables)\<close>. The
  replacement value goes through \<open>ToString\<close> and is read as a replacement pattern.
  \<open>None\<close>: a key outside the modelled patterns.
\<close>

fun replaceVariables :: "string \<Rightarrow> (string \<times> jsval) list \<Rightarrow> string option" where
  "replaceVariables processedText [] = Some processedText"
| "replaceVariables processedText ((variableName, v) # rest) =
     (case placeholderRegex variableName of
        None \<Rightarrow> None
      | Some regex \<Rightarrow>
         replaceVariables (replaceAll regex (toString (orEmpty v)) [] processedText) rest)"

subsection \<open>Rendering a template\<close>

text \<open>
  \<open>safeVariables\<close>, lines 364 to 366: \<open>value == null\<close> holds for \<open>null\<close> and \<open>undefined\<close>
  and for no other value.
\<close>

definition safeVariables :: "(string \<times> jsval) list \<Rightarrow> (string \<times> jsval) list" where
  "safeVariables variables =
     map (\<lambda>(key, v). (key, if v = JNull \<or> v = JUndefined then JStr [] else v)) variables"

text \<open>
  \<open>processTemplate\<close>, lines 351 to 384. \<open>readFile\<close> and \<open>writeFile\<close> are those of \<open>fs\<close>;
  \<open>render\<close> is the template engine on the content read (building \<open>PizZip\<close> and
  \<open>Docxtemplater\<close>, \<open>doc.render\<close>, generating the buffer): it returns the buffer, or throws
  an error that carries a list of explanations (\<open>Inl (Inl explanations)\<close>) or only a
  message (\<open>Inl (Inr message)\<close>). \<open>variables\<close> is \<open>None\<close> when the caller passes \<open>null\<close> or
  \<open>undefined\<close>.
\<close>

definition processTemplate ::
  "(string \<Rightarrow> string io) \<Rightarrow> (string \<Rightarrow> (string \<times> jsval) list \<Rightarrow> (string list + string) + string)
     \<Rightarrow> (string \<Rightarrow> string \<Rightarrow> unit io)
     \<Rightarrow> string \<Rightarrow> (string \<times> jsval) list option \<Rightarrow> string \<Rightarrow> string io" where
  "processTemplate readFile render writeFile templatePath variables outputPath w =
     (case readFile templatePath w of
        (Inl message, w1) \<Rightarrow> (Inl (''Failed to process template: '' @ message), w1)
      | (Inr content, w1) \<Rightarrow>
         (case render content
                 (safeVariables (case variables of None \<Rightarrow> [] | Some vs \<Rightarrow> vs)) of
            Inl (Inl explanations) \<Rightarrow>
              (Inl (''Failed to process template: '' @ joinWith ''; '' explanations), w1)
          | Inl (Inr message) \<Rightarrow> (Inl (''Failed to process template: '' @ message), w1)
          | Inr buffer \<Rightarrow>
             (case writeFile outputPath buffer w1 of
                (Inl message, w2) \<Rightarrow> (Inl (''Failed to process template: '' @ message), w2)
              | (Inr u, w2) \<Rightarrow> (Inr outputPath, w2))))"

text \<open>
  Collaborators for concrete runs of \<open>processTemplate\<close>: \<open>readingFile content\<close> reads
  \<open>content\<close> from any path; \<open>renderValues\<close> is an engine whose buffer is the content
  followed by the values it was given, printed one after the other; \<open>writingFile\<close> stores
  the buffer, of which the world keeps the size.
\<close>

definition readingFile :: "string \<Rightarrow> string \<Rightarrow> string io" where
  "readingFile content path w = (Inr content, w)"

definition renderValues :: "string \<Rightarrow> (string \<times> jsval) list \<Rightarrow> (string list + string) + string"
  where
  "renderValues content variables = Inr (content @ concat (map (\<lambda>(key, v). toString v) variables))"

definition writingFile :: "string \<Rightarrow> string \<Rightarrow> unit io" where
  "writingFile path buffer w = (Inr (), w\<lparr>files := (files w)(path \<mapsto> length buffer)\<rparr>)"

section \<open>The classifier of lines (advancedPdfToWordConverter.js, src/unnamed/part\_000)\<close>

definition spaceRunRegex :: "item list" where
  "spaceRunRegex = [Item isSpace One False, Item isSpace One False, Item isSpace Star False]"

definition tabRegex :: "item list" where
  "tabRegex = [Item (isChr CHR 0x09) One False]"

definition numberedRegex :: "item list" where
  "numberedRegex = [Item isDigit Plus False, Item (isChr CHR ''.'') One False,
                    Item isSpace One False]"

text \<open>
  The class \<open>[\<bullet>\-\*]\<close>: the bullet character U+2022 lies beyond the characters of
  this model, which leaves \<open>-\<close> and \<open>*\<close>.
\<close>

definition isBulletMark :: "char \<Rightarrow> bool" where
  "isBulletMark c = (c \<in> set ''-*'')"

definition bulletRegex :: "item list" where
  "bulletRegex = [Item isBulletMark One False, Item isSpace One False]"

definition isHeader :: "string \<Rightarrow> bool" where
  "isHeader line =
     (codeUnits line = toUpperCase line \<and> length line > 3 \<and> length line < 100)"

definition isSubHeader :: "string \<Rightarrow> bool" where
  "isSubHeader line =
     (length line > 5 \<and> length line < 80 \<and>
      (endsWith line '':'' \<or>
       matchHere [Item isUpperAZ One False, Item isLowerAZ One False] line \<noteq> None))"

text \<open>
  \<open>isTableRow\<close> counts the matches of \<open>/\s{2,}/g\<close> and of \<open>/\t/g\<close> and asks whether one of
  the counts is positive, that is, whether one of the patterns matches somewhere.
\<close>

definition isTableRow :: "string \<Rightarrow> bool" where
  "isTableRow line = (test spaceRunRegex line \<or> test tabRegex line)"

definition formatTableRow :: "string \<Rightarrow> string" where
  "formatTableRow line = replaceAll spaceRunRegex [CHR 0x09] [] line"

definition isNumberedList :: "string \<Rightarrow> bool" where
  "isNumberedList line = (matchHere numberedRegex line \<noteq> None)"

definition isBulletPoint :: "string \<Rightarrow> bool" where
  "isBulletPoint line = (matchHere bulletRegex line \<noteq> None)"

definition isEmphasizedText :: "string \<Rightarrow> bool" where
  "isEmphasizedText line =
     (length line > 10 \<and> length line < 200 \<and>
      (includesStr line ''**'' \<or> includesStr line ''__'' \<or>
       codeUnits line = toUpperCase line \<or>
       matchHere [Item isUpperAZ One False] line \<noteq> None))"

text \<open>
  The body of the loop of \<open>processTextWithAdvancedFormatting\<close>, lines 226 to 250: the text
  pushed on \<open>processedLines\<close> for \<open>lines[i]\<close>. The first test that holds decides.
\<close>

definition processLine :: "string \<Rightarrow> string" where
  "processLine raw =
     (let line = trim raw in
      if line = [] then []
      else if isHeader line then ''# '' @ line
      else if isSubHeader line then ''## '' @ line
      else if isTableRow line then formatTableRow line
      else if isNumberedList line then ''## '' @ line
      else if isBulletPoint line then ''### '' @ line
      else if isEmphasizedText line then ''**'' @ line @ ''**''
      else line)"

definition blankLinesRegex :: "item list" where
  "blankLinesRegex = [Item (isChr CHR 0x0A) One False, Item isSpace Star False,
                      Item (isChr CHR 0x0A) One False]"

definition crlfRegex :: "item list" where
  "crlfRegex = [Item (isChr CHR 0x0D) One False, Item (isChr CHR 0x0A) One False]"

definition processTextWithAdvancedFormatting :: "string \<Rightarrow> string" where
  "processTextWithAdvancedFormatting text =
     (if text = [] then []
      else
        (let processedText =
               trim (replaceAll crlfRegex [CHR 0x0A] []
                      (replaceAll blankLinesRegex [CHR 0x0A, CHR 0x0A] [] text));
             lines = splitOn (CHR 0x0A) processedText
         in joinWith [CHR 0x0A] (map processLine lines)))"

section \<open>The document assembler (src/utils/docxProcessor.js)\<close>

text \<open>
  What the callbacks of \<open>paragraphs.map\<close> build: the options given to \<open>new Paragraph\<close>,
  with those of its single \<open>TextRun\<close> when it has one. Sizes are in half points, spacing
  in twentieths of a point.
\<close>

record para =
  heading :: "nat option"
  paraText :: string
  runSize :: "nat option"
  runFont :: "string option"
  runBold :: bool
  numbered :: bool
  bulleted :: bool
  spacingBefore :: nat
  spacingAfter :: nat
  centered :: bool

definition plainRun :: "string \<Rightarrow> nat \<Rightarrow> nat \<Rightarrow> para" where
  "plainRun t spBefore spAfter =
     \<lparr>heading = None, paraText = t, runSize = Some 24, runFont = None, runBold = False,
      numbered = False, bulleted = False, spacingBefore = spBefore, spacingAfter = spAfter,
      centered = False\<rparr>"

definition hashesRegex :: "item list" where
  "hashesRegex = [Item (isChr CHR ''#'') Plus False]"

definition hashesSpaceRegex :: "item list" where
  "hashesSpaceRegex = [Item (isChr CHR ''#'') Plus False, Item isSpace Star False]"

text \<open>\<open>paragraph.split(/\s{2,}|\t/).filter(cell => cell.trim() !== '')\<close>.\<close>

definition cellsOf :: "string \<Rightarrow> string list" where
  "cellsOf paragraph =
     filter (\<lambda>cell. trim cell \<noteq> []) (splitRe [spaceRunRegex, tabRegex] [] paragraph)"

text \<open>
  The heading of a line that starts with \<open>#\<close>: \<open>level\<close> is the length of the match of
  \<open>/^#+/\<close> (there is one, since the line starts with \<open>#\<close>), the text is the line without
  the match of \<open>/^#+\s*/\<close>.
\<close>

definition headingParagraph :: "string \<Rightarrow> para" where
  "headingParagraph paragraph =
     (let level = (case matchHere hashesRegex paragraph of Some (n, g) \<Rightarrow> n | None \<Rightarrow> 0);
          t = (case matchHere hashesSpaceRegex paragraph of
                 Some (n, g) \<Rightarrow> drop n paragraph
               | None \<Rightarrow> paragraph)
      in \<lparr>heading = Some (if level = 1 then 1 else if level = 2 then 2
                          else if level = 3 then 3 else 4),
          paraText = t, runSize = None, runFont = None, runBold = False,
          numbered = False, bulleted = False, spacingBefore = 240, spacingAfter = 120,
          centered = False\<rparr>)"

text \<open>
  The branches that \<open>createDocxFromText\<close> and \<open>createDocxFromTextAdvanced\<close> share, from
  the test for a table row on (lines 112 to 182 and 260 to 330). \<open>None\<close> is \<open>undefined\<close>:
  the branch of the table row returns only inside \<open>if (cells.length > 1)\<close>, and a
  callback that ends without \<open>return\<close> yields \<open>undefined\<close>.
\<close>

definition tableOrListOrRegular :: "string \<Rightarrow> para option" where
  "tableOrListOrRegular paragraph =
     (if includesStr paragraph ''  '' \<or> includesStr paragraph [CHR 0x09] then
        (let cells = cellsOf paragraph in
         if length cells > 1 then Some ((plainRun paragraph 120 120)\<lparr>runFont := Some ''Courier New''\<rparr>)
         else None)
      else if matchHere numberedRegex paragraph \<noteq> None then
        Some ((plainRun paragraph 60 60)\<lparr>numbered := True\<rparr>)
      else if matchHere bulletRegex paragraph \<noteq> None then
        Some ((plainRun paragraph 60 60)\<lparr>bulleted := True\<rparr>)
      else Some (plainRun paragraph 120 120))"

text \<open>The callback of \<open>createDocxFromText\<close>, lines 93 to 183.\<close>

definition paragraphOf :: "string \<Rightarrow> para option" where
  "paragraphOf paragraph =
     (if startsWith paragraph ''#'' then Some (headingParagraph paragraph)
      else tableOrListOrRegular paragraph)"

text \<open>
  The callback of \<open>createDocxFromTextAdvanced\<close>, lines 222 to 331. Its first two branches
  read \<open>AlignmentType.CENTER\<close>; the module does not import \<open>AlignmentType\<close> (line 2), so
  they throw a \<open>ReferenceError\<close>.
\<close>

definition paragraphOfAdvanced :: "string \<Rightarrow> string + para option" where
  "paragraphOfAdvanced paragraph =
     (if startsWith paragraph ''#'' then Inl ''AlignmentType is not defined''
      else if startsWith paragraph ''**'' \<and> endsWith paragraph ''**'' then
        Inl ''AlignmentType is not defined''
      else Inr (tableOrListOrRegular paragraph))"

text \<open>\<open>content.split('\n').filter(line => line.trim() !== '')\<close>, lines 79 and 204.\<close>

definition paragraphsOf :: "string \<Rightarrow> string list" where
  "paragraphsOf content = filter (\<lambda>line. trim line \<noteq> []) (splitOn (CHR 0x0A) content)"

text \<open>The children of the section that \<open>createDocxFromText\<close> hands to \<open>Document\<close>.\<close>

definition childrenOf :: "string \<Rightarrow> para option list" where
  "childrenOf content = map paragraphOf (paragraphsOf content)"

section \<open>Notions used in the statements and proofs\<close>

text \<open>
  A name is literal when none of its characters has a meaning of its own in a pattern:
  for such a key the pattern built by \<open>replaceVariables\<close> matches the name itself.
\<close>

definition literalName :: "string \<Rightarrow> bool" where
  "literalName name = list_all (\<lambda>c. c \<notin> set syntaxChars) name"

text \<open>
  A text is settled when every \<open>{{\<close> that opens in it (the second brace may be the
  character that follows the text) has a \<open>}\<close> behind it in the text. These are the texts
  behind which the scan for variables meets a placeholder at its own opening marker; behind
  any other text the placeholder lies inside an earlier \<open>{{\<close> that is still open.
\<close>

fun settled :: "string \<Rightarrow> bool" where
  "settled [] = True"
| "settled (c # r) =
     ((take 2 (c # r @ ''{'') = ''{{'' \<longrightarrow> CHR ''}'' \<in> set (tl r)) \<and> settled r)"

text \<open>
  The rest of this section serves the proofs. \<open>braced acc capf\<close> describes a pattern that
  matches \<open>{{\<close>, then a content without \<open>}\<close> that \<open>acc\<close> accepts, then \<open>}}\<close>, and captures
  \<open>capf\<close> of the content; the patterns of extraction and of substitution are shown to be
  of this kind.
\<close>

definition spaces :: "string \<Rightarrow> bool" where
  "spaces w = list_all isSpace w"

definition notClose :: "char \<Rightarrow> bool" where
  "notClose c = (c \<noteq> CHR ''}'')"

definition braced :: "(string \<Rightarrow> bool) \<Rightarrow> (string \<Rightarrow> string) \<Rightarrow> string \<Rightarrow> (nat \<times> string) option" where
  "braced acc capf s =
     (if take 2 s = ''{{'' \<and> take 2 (dropWhile notClose (drop 2 s)) = ''}}''
         \<and> acc (takeWhile notClose (drop 2 s))
      then Some (length (takeWhile notClose (drop 2 s)) + 4, capf (takeWhile notClose (drop 2 s)))
      else None)"

definition capOf :: "string \<Rightarrow> string" where
  "capOf C = (if list_all isSpace C then [last C] else dropWhile isSpace C)"

definition accK :: "string \<Rightarrow> string \<Rightarrow> bool" where
  "accK k C = (\<exists>w1 w2. C = w1 @ k @ w2 \<and> spaces w1 \<and> spaces w2)"

definition lits :: "string \<Rightarrow> item list" where
  "lits k = map (\<lambda>c. Item (isChr c) One False) k"

definition closeTail :: "item list" where
  "closeTail = [Item isSpace Star False, Item (isChr CHR ''}'') One False,
                Item (isChr CHR ''}'') One False]"

section \<open>The cascade: order, short circuit and exhaustion\<close>

lemma convertPdfToWord_first:
  assumes "s1 i out (beforeLibreOffice w0) = (Inr p, w3)"
  shows "convertPdfToWord s1 s2 s3 s4 i out w0 = (Inr p, w3)"
  using assms by (simp add: convertPdfToWord_def beforeLibreOffice_def Let_def)

lemma convertPdfToWord_second:
  assumes "s1 i out (beforeLibreOffice w0) = (Inl e1, w3)"
    and "s2 i out (beforePdf2Docx e1 w3) = (Inr p, w6)"
  shows "convertPdfToWord s1 s2 s3 s4 i out w0 = (Inr p, w6)"
  using assms
  by (simp add: convertPdfToWord_def beforeLibreOffice_def beforePdf2Docx_def Let_def)

lemma convertPdfToWord_third:
  assumes "s1 i out (beforeLibreOffice w0) = (Inl e1, w3)"
    and "s2 i out (beforePdf2Docx e1 w3) = (Inl e2, w6)"
    and "s3 i out (beforeAlternativeParsing e2 w6) = (Inr p, w9)"
  shows "convertPdfToWord s1 s2 s3 s4 i out w0 = (Inr p, w9)"
  using assms
  by (simp add: convertPdfToWord_def beforeLibreOffice_def beforePdf2Docx_def
      beforeAlternativeParsing_def Let_def)

lemma convertPdfToWord_fourth:
  assumes "s1 i out (beforeLibreOffice w0) = (Inl e1, w3)"
    and "s2 i out (beforePdf2Docx e1 w3) = (Inl e2, w6)"
    and "s3 i out (beforeAlternativeParsing e2 w6) = (Inl e3, w9)"
  shows "convertPdfToWord s1 s2 s3 s4 i out w0 =
           s4 i out (beforeEnhancedTextExtraction e3 w9)"
  using assms
  by (simp add: convertPdfToWord_def beforeLibreOffice_def beforePdf2Docx_def
      beforeAlternativeParsing_def beforeEnhancedTextExtraction_def Let_def)

text \<open>
  Claim C3. The cascade tries the strategies in the declared order and stops at the first
  success: when strategy \<open>k\<close> returns a path (each earlier one having thrown), the cascade
  returns that path and the world strategy \<open>k\<close> left, whatever the later strategies are,
  so none of them is run. Each strategy is started in the world its predecessor left, after
  the two lines the cascade prints. In particular, when the first strategy throws a timeout
  and the second writes an artifact, the result is the second's artifact.
\<close>

theorem cascade_short_circuit:
  "(s1 i out (beforeLibreOffice w0) = (Inr p, w) \<longrightarrow>
      (\<forall>t2 t3 t4. convertPdfToWord s1 t2 t3 t4 i out w0 = (Inr p, w)))
   \<and> (s1 i out (beforeLibreOffice w0) = (Inl e1, w3) \<and>
      s2 i out (beforePdf2Docx e1 w3) = (Inr p, w) \<longrightarrow>
      (\<forall>t3 t4. convertPdfToWord s1 s2 t3 t4 i out w0 = (Inr p, w)))
   \<and> (s1 i out (beforeLibreOffice w0) = (Inl e1, w3) \<and>
      s2 i out (beforePdf2Docx e1 w3) = (Inl e2, w6) \<and>
      s3 i out (beforeAlternativeParsing e2 w6) = (Inr p, w) \<longrightarrow>
      (\<forall>t4. convertPdfToWord s1 s2 s3 t4 i out w0 = (Inr p, w)))
   \<and> (s1 i out (beforeLibreOffice w0) = (Inl e1, w3) \<and>
      s2 i out (beforePdf2Docx e1 w3) = (Inl e2, w6) \<and>
      s3 i out (beforeAlternativeParsing e2 w6) = (Inl e3, w9) \<and>
      s4 i out (beforeEnhancedTextExtraction e3 w9) = (Inr p, w) \<longrightarrow>
      convertPdfToWord s1 s2 s3 s4 i out w0 = (Inr p, w))"
  by (simp add: convertPdfToWord_first convertPdfToWord_second convertPdfToWord_third
      convertPdfToWord_fourth)

theorem cascade_short_circuit_witness:
  "(\<forall>t2 t3 t4. convertPdfToWord (writing 9) t2 t3 t4 ''in.pdf'' ''out.docx'' emptyWorld
       = writing 9 ''in.pdf'' ''out.docx'' (beforeLibreOffice emptyWorld))
   \<and> (\<forall>t3 t4. convertPdfToWord (throwing ''Command timed out'') (writing 9) t3 t4
         ''in.pdf'' ''out.docx'' emptyWorld
       = (Inr ''out.docx'', afterTimeout\<lparr>files := [''out.docx'' \<mapsto> 9]\<rparr>))
   \<and> (\<forall>t4. convertPdfToWord (throwing ''a'') (throwing ''b'') (writing 9) t4
         ''in.pdf'' ''out.docx'' emptyWorld
       = writing 9 ''in.pdf'' ''out.docx''
           (beforeAlternativeParsing ''b'' (beforePdf2Docx ''a'' (beforeLibreOffice emptyWorld))))
   \<and> convertPdfToWord (throwing ''a'') (throwing ''b'') (throwing ''c'') (writing 9)
         ''in.pdf'' ''out.docx'' emptyWorld
       = writing 9 ''in.pdf'' ''out.docx''
           (beforeEnhancedTextExtraction ''c'' (beforeAlternativeParsing ''b''
              (beforePdf2Docx ''a'' (beforeLibreOffice emptyWorld))))"
proof -
  let ?i = "''in.pdf''" and ?o = "''out.docx''"
  let ?w1 = "beforeLibreOffice emptyWorld"
  let ?w2 = "beforePdf2Docx ''a'' ?w1"
  let ?w3 = "beforeAlternativeParsing ''b'' ?w2"
  let ?w4 = "beforeEnhancedTextExtraction ''c'' ?w3"
  have a: "writing 9 ?i ?o ?w1 = (Inr ?o, snd (writing 9 ?i ?o ?w1))"
    by (simp add: writing_def)
  have b1: "throwing ''Command timed out'' ?i ?o ?w1 = (Inl ''Command timed out'', ?w1)"
    by (simp add: throwing_def)
  have b2: "writing 9 ?i ?o (beforePdf2Docx ''Command timed out'' ?w1)
            = (Inr ?o, afterTimeout\<lparr>files := [''out.docx'' \<mapsto> 9]\<rparr>)"
    by (simp add: writing_def afterTimeout_def beforePdf2Docx_def beforeLibreOffice_def
        consoleLog_def emptyWorld_def)
  have c1: "throwing ''a'' ?i ?o ?w1 = (Inl ''a'', ?w1)"
    and c2: "throwing ''b'' ?i ?o ?w2 = (Inl ''b'', ?w2)"
    and c3: "throwing ''c'' ?i ?o ?w3 = (Inl ''c'', ?w3)"
    by (simp_all add: throwing_def)
  have d3: "writing 9 ?i ?o ?w3 = (Inr ?o, snd (writing 9 ?i ?o ?w3))"
    and d4: "writing 9 ?i ?o ?w4 = (Inr ?o, snd (writing 9 ?i ?o ?w4))"
    by (simp_all add: writing_def)
  note t = cascade_short_circuit
  have 1: "\<forall>t2 t3 t4. convertPdfToWord (writing 9) t2 t3 t4 ?i ?o emptyWorld
             = writing 9 ?i ?o ?w1"
    using t [of "writing 9" ?i ?o emptyWorld ?o "snd (writing 9 ?i ?o ?w1)"] a by simp
  have 2: "\<forall>t3 t4. convertPdfToWord (throwing ''Command timed out'') (writing 9) t3 t4
             ?i ?o emptyWorld = (Inr ?o, afterTimeout\<lparr>files := [''out.docx'' \<mapsto> 9]\<rparr>)"
    using t [of "throwing ''Command timed out''" ?i ?o emptyWorld ?o
        "afterTimeout\<lparr>files := [''out.docx'' \<mapsto> 9]\<rparr>" "''Command timed out''" ?w1 "writing 9"]
      b1 b2 by simp
  have 3: "\<forall>t4. convertPdfToWord (throwing ''a'') (throwing ''b'') (writing 9) t4 ?i ?o emptyWorld
             = writing 9 ?i ?o ?w3"
    using t [of "throwing ''a''" ?i ?o emptyWorld ?o "snd (writing 9 ?i ?o ?w3)" "''a''" ?w1
        "throwing ''b''" "''b''" ?w2 "writing 9"] c1 c2 d3 by simp
  have 4: "convertPdfToWord (throwing ''a'') (throwing ''b'') (throwing ''c'') (writing 9)
             ?i ?o emptyWorld = writing 9 ?i ?o ?w4"
    using t [of "throwing ''a''" ?i ?o emptyWorld ?o "snd (writing 9 ?i ?o ?w4)" "''a''" ?w1
        "throwing ''b''" "''b''" ?w2 "throwing ''c''" "''c''" ?w3 "writing 9"] c1 c2 c3 d4 by simp
  from 1 2 3 4 show ?thesis by blast
qed

text \<open>
  Claim C2, as stated, fails: when all four strategies throw, what \<open>convertPdfToWord\<close> throws
  is the error of the fourth strategy alone. With the four reasons \<open>a\<close>, \<open>b\<close>, \<open>c\<close>, \<open>d\<close> the
  terminal error is \<open>d\<close>, which names none of the other three.
\<close>

theorem cascade_exhausted_counterexample:
  "fst (convertPdfToWord (throwing ''a'') (throwing ''b'') (throwing ''c'') (throwing ''d'')
          ''in.pdf'' ''out.docx'' emptyWorld) = Inl ''d''
   \<and> CHR ''a'' \<notin> set ''d'' \<and> CHR ''b'' \<notin> set ''d'' \<and> CHR ''c'' \<notin> set ''d''"
  by (simp add: convertPdfToWord_def throwing_def Let_def)

text \<open>
  Claim C2, amended. When every strategy throws, the cascade ends by throwing, and the error
  is the one of the last strategy, unchanged. The reasons of the first three strategies are
  printed on the console, one line each and in strategy order, each followed by the
  announcement of the next strategy; they are not part of the terminal error.
\<close>

theorem cascade_exhausted:
  assumes "s1 i out (beforeLibreOffice w0) = (Inl e1, w3)"
    and "s2 i out (beforePdf2Docx e1 w3) = (Inl e2, w6)"
    and "s3 i out (beforeAlternativeParsing e2 w6) = (Inl e3, w9)"
    and "s4 i out (beforeEnhancedTextExtraction e3 w9) = (Inl e4, w)"
  shows "convertPdfToWord s1 s2 s3 s4 i out w0 = (Inl e4, w)
    \<and> console (beforePdf2Docx e1 w3) = console w3 @
        [''LibreOffice conversion failed: '' @ e1,
         ''Attempting pdf2docx conversion with enhanced formatting...'']
    \<and> console (beforeAlternativeParsing e2 w6) = console w6 @
        [''pdf2docx conversion failed: '' @ e2, ''Attempting alternative parsing methods...'']
    \<and> console (beforeEnhancedTextExtraction e3 w9) = console w9 @
        [''Alternative parsing failed: '' @ e3, ''Falling back to enhanced text extraction...'']"
  using assms
  by (simp add: convertPdfToWord_fourth beforePdf2Docx_def beforeAlternativeParsing_def
      beforeEnhancedTextExtraction_def consoleLog_def)

theorem cascade_exhausted_witness:
  "convertPdfToWord (throwing ''a'') (throwing ''b'') (throwing ''c'') (throwing ''d'')
      ''in.pdf'' ''out.docx'' emptyWorld
   = (Inl ''d'', \<lparr>files = Map.empty, console =
        [''Starting enhanced PDF to Word conversion...'',
         ''Attempting LibreOffice conversion with enhanced formatting...'',
         ''LibreOffice conversion failed: a'',
         ''Attempting pdf2docx conversion with enhanced formatting...'',
         ''pdf2docx conversion failed: b'',
         ''Attempting alternative parsing methods...'',
         ''Alternative parsing failed: c'',
         ''Falling back to enhanced text extraction...'']\<rparr>)"
proof -
  let ?i = "''in.pdf''" and ?o = "''out.docx''"
  let ?w1 = "beforeLibreOffice emptyWorld"
  let ?w2 = "beforePdf2Docx ''a'' ?w1"
  let ?w3 = "beforeAlternativeParsing ''b'' ?w2"
  let ?w4 = "beforeEnhancedTextExtraction ''c'' ?w3"
  have 1: "throwing ''a'' ?i ?o ?w1 = (Inl ''a'', ?w1)"
    and 2: "throwing ''b'' ?i ?o ?w2 = (Inl ''b'', ?w2)"
    and 3: "throwing ''c'' ?i ?o ?w3 = (Inl ''c'', ?w3)"
    and 4: "throwing ''d'' ?i ?o ?w4 = (Inl ''d'', ?w4)"
    by (simp_all add: throwing_def)
  have "convertPdfToWord (throwing ''a'') (throwing ''b'') (throwing ''c'') (throwing ''d'')
          ?i ?o emptyWorld = (Inl ''d'', ?w4)"
    using cascade_exhausted [of "throwing ''a''" ?i ?o emptyWorld "''a''" ?w1 "throwing ''b''"
        "''b''" ?w2 "throwing ''c''" "''c''" ?w3 "throwing ''d''" "''d''" ?w4] 1 2 3 4
    by simp
  then show ?thesis
    by (simp add: beforeLibreOffice_def beforePdf2Docx_def beforeAlternativeParsing_def
        beforeEnhancedTextExtraction_def consoleLog_def emptyWorld_def)
qed

section \<open>What counts as the success of a strategy\<close>

lemma files_consoleLog [simp]: "files (consoleLog l w) = files w"
  by (simp add: consoleLog_def)

lemma files_afterOutput [simp]: "files (afterOutput so se w) = files w"
  by (simp add: afterOutput_def)

lemma libreOfficeLoop_passedOver:
  assumes "passedOver execAsync (replaceFirstStr ''.pdf'' ''.docx'' inp) k pre w = Some wk"
    and "post \<noteq> []"
  shows "libreOfficeLoop execAsync move k (pre @ post) inp out w
           = libreOfficeLoop execAsync move (k + length pre) post inp out wk"
  using assms(1)
proof (induction pre arbitrary: k w)
  case Nil
  then show ?case by simp
next
  case (Cons c pre)
  let ?e = "replaceFirstStr ''.pdf'' ''.docx'' inp"
  obtain r w2 where e: "execAsync c (attempting k c w) = (r, w2)"
    by (cases "execAsync c (attempting k c w)")
  have ne: "pre @ post \<noteq> []" using assms(2) by simp
  show ?case
  proof (cases r)
    case (Inl message)
    have p: "passedOver execAsync ?e (k + 1) pre (afterFailure k message w2) = Some wk"
      using Cons.prems e Inl by simp
    have "libreOfficeLoop execAsync move k ((c # pre) @ post) inp out w
            = libreOfficeLoop execAsync move (k + 1) (pre @ post) inp out (afterFailure k message w2)"
      using e Inl assms(2) by (simp add: Let_def attempting_def afterFailure_def)
    also have "\<dots> = libreOfficeLoop execAsync move (k + 1 + length pre) post inp out wk"
      using p by (rule Cons.IH)
    finally show ?thesis by simp
  next
    case (Inr oe)
    obtain so se where oe: "oe = (so, se)" by (cases oe)
    have f: "files w2 ?e = None"
      using Cons.prems e Inr oe by (simp split: if_splits)
    have p: "passedOver execAsync ?e (k + 1) pre (afterOutput so se w2) = Some wk"
      using Cons.prems e Inr oe f by simp
    have "libreOfficeLoop execAsync move k ((c # pre) @ post) inp out w
            = libreOfficeLoop execAsync move (k + 1) (pre @ post) inp out (afterOutput so se w2)"
      using e Inr oe f by (simp add: Let_def attempting_def afterOutput_def)
    also have "\<dots> = libreOfficeLoop execAsync move (k + 1 + length pre) post inp out wk"
      using p by (rule Cons.IH)
    finally show ?thesis by simp
  qed
qed

lemma convertWithLibreOffice_reaches:
  assumes "cmds = conversionMethods (dirname out) inp"
    and "k < length cmds"
    and "passedOver execAsync (replaceFirstStr ''.pdf'' ''.docx'' inp) 0 (take k cmds) w = Some wk"
  shows "convertWithLibreOffice execAsync move dirname inp out w
           = libreOfficeLoop execAsync move k (cmds ! k # drop (Suc k) cmds) inp out wk"
proof -
  have c: "cmds = take k cmds @ (cmds ! k # drop (Suc k) cmds)"
    using assms(2) by (simp add: id_take_nth_drop [symmetric])
  have l: "length (take k cmds) = k" using assms(2) by simp
  have "libreOfficeLoop execAsync move 0 (take k cmds @ (cmds ! k # drop (Suc k) cmds)) inp out w
          = libreOfficeLoop execAsync move (0 + length (take k cmds)) (cmds ! k # drop (Suc k) cmds)
              inp out wk"
    using assms(3) by (rule libreOfficeLoop_passedOver) simp
  then show ?thesis
    unfolding convertWithLibreOffice_def Let_def assms(1) [symmetric] l using c by simp
qed

lemma libreOfficeLoop_moved:
  assumes "execAsync c (attempting k c w) = (Inr (so, se), w2)"
    and "files w2 (replaceFirstStr ''.pdf'' ''.docx'' inp) = Some n"
    and "move (replaceFirstStr ''.pdf'' ''.docx'' inp) out (afterOutput so se w2) = (Inr (), w5)"
  shows "libreOfficeLoop execAsync move k (c # rest) inp out w
           = (Inr out, consoleLog (''LibreOffice conversion method '' @ showNat (k + 1)
                                     @ '' successful'') w5)"
proof -
  have e: "execAsync c (consoleLog (''Attempting LibreOffice conversion method ''
             @ showNat (k + 1) @ '': '' @ c) w) = (Inr (so, se), w2)"
    using assms(1) by (simp only: attempting_def)
  have m: "move (replaceFirstStr ''.pdf'' ''.docx'' inp) out
             (consoleLog (''LibreOffice stdout: '' @ so)
                (if se \<noteq> [] then consoleLog (''LibreOffice stderr: '' @ se) w2 else w2))
           = (Inr (), w5)"
    using assms(3) by (simp only: afterOutput_def)
  show ?thesis
    by (simp only: libreOfficeLoop.simps Let_def e m assms(2) prod.case sum.case
        files_consoleLog if_True if_False option.distinct not_False_eq_True split: if_split)
      (simp add: assms(2))
qed

lemma libreOfficeLoop_last_idle:
  assumes "execAsync c (attempting k c w) = (Inr (so, se), w2)"
    and "files w2 (replaceFirstStr ''.pdf'' ''.docx'' inp) = None"
  shows "libreOfficeLoop execAsync move k [c] inp out w
           = (Inl ''All LibreOffice conversion methods failed'', afterOutput so se w2)"
proof -
  have e: "execAsync c (consoleLog (''Attempting LibreOffice conversion method ''
             @ showNat (k + 1) @ '': '' @ c) w) = (Inr (so, se), w2)"
    using assms(1) by (simp only: attempting_def)
  show ?thesis
    unfolding afterOutput_def
    by (simp only: libreOfficeLoop.simps Let_def e prod.case sum.case)
      (simp add: assms(2))
qed

lemma libreOfficeLoop_last_throws:
  assumes "execAsync c (attempting k c w) = (Inl message, w2)"
  shows "libreOfficeLoop execAsync move k [c] inp out w = (Inl message, afterFailure k message w2)"
proof -
  have e: "execAsync c (consoleLog (''Attempting LibreOffice conversion method ''
             @ showNat (k + 1) @ '': '' @ c) w) = (Inl message, w2)"
    using assms(1) by (simp only: attempting_def)
  show ?thesis
    unfolding afterFailure_def
    by (simp only: libreOfficeLoop.simps Let_def e prod.case sum.case) simp
qed




section \<open>The classifier: the heading rule comes first\<close>

text \<open>
  Claim C5. A line that, once trimmed, equals its upper-case form and has more than 3 and
  fewer than 100 characters is classified as a heading: the routine emits it behind the
  heading mark \<open>#\<close>. No later rule is consulted, so this also holds for a line that ends
  with a colon or that has a run of two spaces, such as \<open>NET  SALES:\<close>; and
  \<open>REVENUE GROWTH\<close> is a heading.
\<close>

theorem heading_first:
  assumes "line = trim raw" and "codeUnits line = toUpperCase line"
    and "3 < length line" and "length line < 100"
  shows "processLine raw = ''# '' @ line"
proof -
  have "line \<noteq> []" using assms(3) by auto
  moreover have "isHeader line" using assms(2-4) by (simp add: isHeader_def)
  ultimately show ?thesis using assms(1) by (simp add: processLine_def Let_def)
qed

theorem heading_first_witness:
  "processLine ''REVENUE GROWTH'' = ''# REVENUE GROWTH''
   \<and> isSubHeader ''NET  SALES:'' \<and> isTableRow ''NET  SALES:''
   \<and> processLine ''NET  SALES:'' = ''# NET  SALES:''"
proof -
  have t1: "''REVENUE GROWTH'' = trim ''REVENUE GROWTH''"
    and t2: "''NET  SALES:'' = trim ''NET  SALES:''"
    by (simp_all add: trim_def isSpace_def)
  have u1: "codeUnits ''REVENUE GROWTH'' = toUpperCase ''REVENUE GROWTH''"
    and u2: "codeUnits ''NET  SALES:'' = toUpperCase ''NET  SALES:''"
    by (simp_all add: codeUnits_def toUpperCase_def upperUnits_def)
  have 1: "processLine ''REVENUE GROWTH'' = ''# REVENUE GROWTH''"
    using heading_first [OF t1 u1] by simp
  have 2: "processLine ''NET  SALES:'' = ''# NET  SALES:''"
    using heading_first [OF t2 u2] by simp
  have 3: "isSubHeader ''NET  SALES:''"
    by (simp add: isSubHeader_def endsWith_def)
  have 4: "isTableRow ''NET  SALES:''"
    by (simp add: isTableRow_def spaceRunRegex_def isSpace_def took_def)
  from 1 2 3 4 show ?thesis by simp
qed

text \<open>Upper case beyond ASCII: letters of Latin-1 are not their own upper-case form.\<close>

lemma toUpperCase_latin1:
  "toUpperCase [CHR 0xE9, CHR ''t'', CHR 0xE9] = [201, 84, 201]
   \<and> toUpperCase [CHR 0xDF] = [83, 83]
   \<and> toUpperCase [CHR 0xFF] = [376]
   \<and> toUpperCase [CHR 0xB5, CHR 0xF7] = [924, 247]
   \<and> \<not> isHeader [CHR 0xE9, CHR 0xE9, CHR 0xE9, CHR 0xE9]
   \<and> isHeader [CHR 0xC9, CHR 0xC9, CHR 0xC9, CHR 0xC9]"
  by (simp add: toUpperCase_def upperUnits_def isHeader_def codeUnits_def)

section \<open>The assembler: a table row of fewer than two cells\<close>

text \<open>
  Claim C6, at the line \<open>"  Hello"\<close> (two spaces, one word): the line has a run of two
  spaces and splits into the single cell \<open>Hello\<close>. Both callbacks enter the branch of the
  table row, find \<open>cells.length > 1\<close> false and end without \<open>return\<close>: the construct for
  the line is \<open>undefined\<close>, not a monospace paragraph, and it is handed to the document as
  a child of the section.
\<close>

theorem table_row_of_one_cell:
  "includesStr ''  Hello'' ''  ''
   \<and> cellsOf ''  Hello'' = [''Hello'']
   \<and> paragraphOf ''  Hello'' = None
   \<and> paragraphOfAdvanced ''  Hello'' = Inr None
   \<and> childrenOf (''Stock'' @ [CHR 0x0A] @ ''  Hello'') = [Some (plainRun ''Stock'' 120 120), None]"
  by (simp add: paragraphOf_def paragraphOfAdvanced_def startsWith_def endsWith_def
      tableOrListOrRegular_def cellsOf_def spaceRunRegex_def tabRegex_def isSpace_def isChr_def
      took_def trim_def Let_def childrenOf_def paragraphsOf_def numberedRegex_def isDigit_def
      bulletRegex_def isBulletMark_def)

section \<open>Lemmas on trimming, matching and scanning\<close>

lemma isSpace_notClose [simp]: "isSpace c \<Longrightarrow> notClose c"
  by (auto simp: isSpace_def notClose_def)

lemma isSpace_not_brace [simp]: "\<not> isSpace CHR ''}''" "\<not> isSpace CHR ''{''"
  by (simp_all add: isSpace_def)

lemma trim_Nil [simp]: "trim [] = []"
  by (simp add: trim_def)

lemma last_dropWhile: "dropWhile P xs \<noteq> [] \<Longrightarrow> last (dropWhile P xs) = last xs"
proof -
  assume a: "dropWhile P xs \<noteq> []"
  have "last xs = last (takeWhile P xs @ dropWhile P xs)" by simp
  also have "\<dots> = last (dropWhile P xs)" using a by (rule last_appendR)
  finally show ?thesis by simp
qed

lemma trim_hd: "trim s \<noteq> [] \<Longrightarrow> \<not> isSpace (hd (trim s))"
proof -
  let ?z = "dropWhile isSpace s"
  let ?y = "dropWhile isSpace (rev ?z)"
  assume "trim s \<noteq> []"
  then have y: "?y \<noteq> []" by (simp add: trim_def)
  have z: "?z \<noteq> []"
  proof
    assume e: "?z = []"
    have "?y = []" unfolding e by simp
    with y show False by simp
  qed
  have "hd (trim s) = last ?y" using y by (simp add: trim_def hd_rev)
  also have "\<dots> = last (rev ?z)" using y by (rule last_dropWhile)
  also have "\<dots> = hd ?z" using z by (simp add: last_rev)
  finally show ?thesis using z hd_dropWhile [of isSpace s] by simp
qed

lemma trim_last: "trim s \<noteq> [] \<Longrightarrow> \<not> isSpace (last (trim s))"
proof -
  let ?y = "dropWhile isSpace (rev (dropWhile isSpace s))"
  assume "trim s \<noteq> []"
  then have y: "?y \<noteq> []" by (simp add: trim_def)
  have "last (trim s) = hd ?y" using y by (simp add: trim_def last_rev)
  then show ?thesis using y hd_dropWhile [of isSpace "rev (dropWhile isSpace s)"] by simp
qed

lemma trim_id: "x = [] \<or> (\<not> isSpace (hd x) \<and> \<not> isSpace (last x)) \<Longrightarrow> trim x = x"
proof (cases x)
  case Nil then show ?thesis by simp
next
  case (Cons c r)
  assume "x = [] \<or> (\<not> isSpace (hd x) \<and> \<not> isSpace (last x))"
  with Cons have h: "\<not> isSpace (hd x)" and l: "\<not> isSpace (last x)" by auto
  have 1: "dropWhile isSpace x = x" using h Cons by simp
  have "rev x \<noteq> []" using Cons by simp
  moreover have "hd (rev x) = last x" using Cons by (simp add: hd_rev)
  ultimately obtain a ys where a: "rev x = a # ys" "a = last x"
    by (cases "rev x") auto
  have 2: "dropWhile isSpace (rev x) = rev x"
    unfolding a(1) using l a(2) by simp
  show ?thesis by (simp add: trim_def 1 2)
qed

lemma trim_idem [simp]: "trim (trim s) = trim s"
  using trim_hd [of s] trim_last [of s] by (intro trim_id) auto

lemma dropWhile_spaces: "spaces w \<Longrightarrow> dropWhile isSpace (w @ x) = dropWhile isSpace x"
  by (induction w) (auto simp: spaces_def)

lemma dropWhile_all: "list_all P xs \<Longrightarrow> dropWhile P xs = []"
  by (induction xs) auto

lemma trim_spaces_left: "spaces w \<Longrightarrow> trim (w @ x) = trim x"
  by (simp add: trim_def dropWhile_spaces)

lemma spaces_rev: "spaces (rev w) = spaces w"
  by (simp add: spaces_def list_all_iff)

lemma trim_spaces_right: "spaces w \<Longrightarrow> trim (x @ w) = trim x"
proof (cases "list_all isSpace x")
  case True
  assume "spaces w"
  with True have "list_all isSpace (x @ w)" by (simp add: spaces_def)
  then have e1: "dropWhile isSpace (x @ w) = []" by (rule dropWhile_all)
  have e2: "dropWhile isSpace x = []" using True by (rule dropWhile_all)
  show ?thesis unfolding trim_def e1 e2 ..
next
  case False
  assume w: "spaces w"
  from False obtain c where "c \<in> set x" "\<not> isSpace c" by (auto simp: list_all_iff)
  then have "dropWhile isSpace (x @ w) = dropWhile isSpace x @ w"
    by (simp add: dropWhile_append1)
  then have "dropWhile isSpace (rev (dropWhile isSpace (x @ w)))
             = dropWhile isSpace (rev w @ rev (dropWhile isSpace x))" by simp
  also have "\<dots> = dropWhile isSpace (rev (dropWhile isSpace x))"
    using w by (intro dropWhile_spaces) (simp add: spaces_rev)
  finally show ?thesis by (simp add: trim_def)
qed

lemma trim_spaces: "spaces w1 \<Longrightarrow> spaces w2 \<Longrightarrow> trim (w1 @ x @ w2) = trim x"
  by (simp add: trim_spaces_left trim_spaces_right)

lemma notClose_eq: "isNotChr CHR ''}'' = notClose"
  by (auto simp: fun_eq_iff isNotChr_def notClose_def)

lemma close2:
  "matchHere [Item (isChr CHR ''}'') One False, Item (isChr CHR ''}'') One False] r
     = (if take 2 r = ''}}'' then Some (2, []) else None)"
proof (cases r)
  case Nil then show ?thesis by simp
next
  case (Cons a r1)
  then show ?thesis by (cases r1) (auto simp: isChr_def took_def)
qed

lemma tail_match:
  "matchHere closeTail r
     = (if take 2 (dropWhile isSpace r) = ''}}''
        then Some (length (takeWhile isSpace r) + 2, []) else None)"
proof (induction r)
  case Nil
  show ?case by (simp add: closeTail_def)
next
  case (Cons c r)
  show ?case
  proof (cases "isSpace c")
    case True
    then have n: "c \<noteq> CHR ''}''" by auto
    show ?thesis
      using True n Cons.IH close2 [of "c # r"]
      by (auto simp: closeTail_def took_def)
  next
    case False
    then show ?thesis using close2 [of "c # r"] by (simp add: closeTail_def)
  qed
qed

lemma sp_close:
  "take 2 (dropWhile isSpace r) = ''}}'' \<Longrightarrow> take 2 (dropWhile notClose r) = ''}}''"
proof (induction r)
  case Nil then show ?case by simp
next
  case (Cons c r)
  show ?case
  proof (cases "isSpace c")
    case True
    with Cons show ?thesis by simp
  next
    case False
    with Cons.prems have "c = CHR ''}''" by simp
    with Cons.prems False show ?thesis by (simp add: notClose_def)
  qed
qed

lemma group_star:
  "matchHere (Item notClose Star True # closeTail) r
     = (if take 2 (dropWhile notClose r) = ''}}''
        then Some (length (takeWhile notClose r) + 2, takeWhile notClose r) else None)"
proof (induction r)
  case Nil
  show ?case using tail_match [of "[]"] by simp
next
  case (Cons c r)
  show ?case
  proof (cases "notClose c")
    case True
    show ?thesis
    proof (cases "take 2 (dropWhile notClose r) = ''}}''")
      case t: True
      with True Cons.IH show ?thesis by (simp add: took_def)
    next
      case f: False
      then have "take 2 (dropWhile notClose (c # r)) \<noteq> ''}}''" using True by simp
      then have "take 2 (dropWhile isSpace (c # r)) \<noteq> ''}}''" using sp_close by blast
      then have "matchHere closeTail (c # r) = None" by (simp only: tail_match if_False)
      with True f Cons.IH show ?thesis by simp
    qed
  next
    case False
    then have "\<not> isSpace c" by auto
    with False show ?thesis using tail_match [of "c # r"] by (simp add: notClose_def)
  qed
qed

lemma group_plus:
  "matchHere (Item notClose Plus True # closeTail) r
     = (if takeWhile notClose r \<noteq> [] \<and> take 2 (dropWhile notClose r) = ''}}''
        then Some (length (takeWhile notClose r) + 2, takeWhile notClose r) else None)"
  by (cases r) (simp_all add: group_star took_def)

lemma last_spaces: "list_all isSpace C \<Longrightarrow> C \<noteq> [] \<Longrightarrow> isSpace (last C)"
  by (simp add: list_all_iff)

lemma ws_group:
  "matchHere (Item isSpace Star False # Item notClose Plus True # closeTail) r
     = (if takeWhile notClose r \<noteq> [] \<and> take 2 (dropWhile notClose r) = ''}}''
        then Some (length (takeWhile notClose r) + 2, capOf (takeWhile notClose r)) else None)"
proof (induction r)
  case Nil
  show ?case by simp
next
  case (Cons c r)
  let ?G = "Item notClose Plus True # closeTail"
  show ?case
  proof (cases "isSpace c")
    case False
    have "matchHere (Item isSpace Star False # ?G) (c # r) = matchHere ?G (c # r)"
      using False by simp
    also have "\<dots> = (if takeWhile notClose (c # r) \<noteq> [] \<and> take 2 (dropWhile notClose (c # r)) = ''}}''
        then Some (length (takeWhile notClose (c # r)) + 2, takeWhile notClose (c # r)) else None)"
      by (rule group_plus)
    also have "\<dots> = (if takeWhile notClose (c # r) \<noteq> [] \<and> take 2 (dropWhile notClose (c # r)) = ''}}''
        then Some (length (takeWhile notClose (c # r)) + 2, capOf (takeWhile notClose (c # r))) else None)"
      using False by (auto simp: capOf_def)
    finally show ?thesis .
  next
    case True
    then have nc: "notClose c" by simp
    show ?thesis
    proof (cases "takeWhile notClose r \<noteq> [] \<and> take 2 (dropWhile notClose r) = ''}}''")
      case t: True
      then have "matchHere (Item isSpace Star False # ?G) r
                 = Some (length (takeWhile notClose r) + 2, capOf (takeWhile notClose r))"
        using Cons.IH by simp
      then have "matchHere (Item isSpace Star False # ?G) (c # r)
                 = Some (length (takeWhile notClose r) + 3, capOf (takeWhile notClose r))"
        using True by (simp add: took_def)
      moreover have "capOf (takeWhile notClose (c # r)) = capOf (takeWhile notClose r)"
        using True nc t by (simp add: capOf_def)
      ultimately show ?thesis using nc t by simp
    next
      case f: False
      then have "matchHere (Item isSpace Star False # ?G) r = None"
        using Cons.IH by (simp only: if_False)
      then have "matchHere (Item isSpace Star False # ?G) (c # r) = matchHere ?G (c # r)"
        using True by simp
      also have "\<dots> = (if take 2 (dropWhile notClose r) = ''}}''
        then Some (length (takeWhile notClose r) + 3, c # takeWhile notClose r) else None)"
        using nc by (simp add: group_star took_def)
      also have "\<dots> = (if takeWhile notClose (c # r) \<noteq> [] \<and> take 2 (dropWhile notClose (c # r)) = ''}}''
        then Some (length (takeWhile notClose (c # r)) + 2, capOf (takeWhile notClose (c # r))) else None)"
        using nc f True by (auto simp: capOf_def)
      finally show ?thesis .
    qed
  qed
qed

lemma trim_capOf: "C \<noteq> [] \<Longrightarrow> trim (capOf C) = trim C"
proof (cases "list_all isSpace C")
  case True
  assume "C \<noteq> []"
  with True have "isSpace (last C)" by (rule last_spaces)
  then have "trim [last C] = []" by (simp add: trim_def)
  moreover have "trim C = []"
    unfolding trim_def dropWhile_all [OF True] by simp
  ultimately show ?thesis using True by (simp add: capOf_def)
next
  case False
  have "trim C = trim (takeWhile isSpace C @ dropWhile isSpace C)" by simp
  also have "\<dots> = trim (dropWhile isSpace C)"
    by (rule trim_spaces_left) (auto simp: spaces_def list_all_iff dest: set_takeWhileD)
  finally show ?thesis using False by (simp add: capOf_def)
qed

lemma variableRegex_braced: "matchHere variableRegex s = braced (\<lambda>C. C \<noteq> []) capOf s"
proof (cases s)
  case Nil
  then show ?thesis by (simp add: variableRegex_def braced_def)
next
  case (Cons a s1)
  show ?thesis
  proof (cases s1)
    case Nil
    with Cons show ?thesis by (simp add: variableRegex_def braced_def isChr_def)
  next
    case (Cons b r)
    have v: "variableRegex = Item (isChr CHR ''{'') One False # Item (isChr CHR ''{'') One False
               # Item isSpace Star False # Item notClose Plus True # closeTail"
      by (simp add: variableRegex_def closeTail_def notClose_eq)
    show ?thesis
      unfolding v using \<open>s = a # s1\<close> Cons
      by (simp add: ws_group braced_def isChr_def took_def del: matchHere.simps(5,7))
  qed
qed

lemma literalName_Cons [simp]:
  "literalName (a # r) = (a \<notin> set syntaxChars \<and> literalName r)"
  by (simp add: literalName_def)

lemma literalName_Nil [simp]: "literalName []"
  by (simp add: literalName_def)

lemma quant_syntax: "q \<in> set quantChars \<Longrightarrow> q \<in> set syntaxChars"
  by (auto simp: quantChars_def syntaxChars_def)

lemma literal_atom: "a \<notin> set syntaxChars \<Longrightarrow> atomOf a = isChr a"
  by (auto simp: atomOf_def syntaxChars_def)

lemma patternOfName_literal: "literalName k \<Longrightarrow> patternOfName k = Some (lits k)"
proof (induction k rule: patternOfName.induct)
  case 1
  show ?case by (simp add: lits_def)
next
  case (2 a)
  then show ?case by (simp add: lits_def literal_atom)
next
  case (3 a q r)
  from "3.prems" have a: "a \<notin> set syntaxChars" and q: "q \<notin> set quantChars"
    and l: "literalName (q # r)"
    using quant_syntax by auto
  have "patternOfName (q # r) = Some (lits (q # r))"
    using a q l by (intro "3.IH"(2)) auto
  then show ?case using a q by (simp add: lits_def literal_atom)
qed

lemma literal_no_brace:
  "literalName k \<Longrightarrow> CHR ''}'' \<notin> set k \<and> CHR ''{'' \<notin> set k"
  by (induction k) (auto simp: syntaxChars_def)

lemma lits_match:
  "matchHere (lits k @ ps) r
     = (if take (length k) r = k
        then map_option (\<lambda>m. (fst m + length k, snd m)) (matchHere ps (drop (length k) r))
        else None)"
proof (induction k arbitrary: r)
  case Nil
  show ?case by (simp add: lits_def option.map_ident)
next
  case (Cons a k)
  have l: "lits (a # k) = Item (isChr a) One False # lits k" by (simp add: lits_def)
  show ?case
  proof (cases r)
    case Nil
    then show ?thesis by (simp add: l)
  next
    case (Cons c r1)
    show ?thesis
      unfolding l Cons using Cons.IH [of r1]
      by (auto simp: isChr_def took_def option.map_comp comp_def)
  qed
qed

lemma notClose_takeWhile_app:
  assumes "list_all notClose u" and "take 1 r2 = ''}''"
  shows "takeWhile notClose (u @ r2) = u" and "dropWhile notClose (u @ r2) = r2"
proof -
  from assms(2) obtain r3 where r: "r2 = CHR ''}'' # r3" by (cases r2) auto
  show "takeWhile notClose (u @ r2) = u"
    using assms(1) unfolding r by (induction u) (auto simp: notClose_def)
  show "dropWhile notClose (u @ r2) = r2"
    using assms(1) unfolding r by (induction u) (auto simp: notClose_def)
qed

lemma key_tail:
  assumes "CHR ''}'' \<notin> set k"
  shows "matchHere (lits k @ closeTail) r
     = (if take 2 (dropWhile notClose r) = ''}}''
           \<and> (\<exists>w2. takeWhile notClose r = k @ w2 \<and> spaces w2)
        then Some (length (takeWhile notClose r) + 2, []) else None)"
proof -
  let ?r1 = "drop (length k) r"
  let ?w = "takeWhile isSpace ?r1" and ?r2 = "dropWhile isSpace ?r1"
  have kn: "list_all notClose k" using assms by (auto simp: list_all_iff notClose_def)
  have m: "matchHere (lits k @ closeTail) r
     = (if take (length k) r = k \<and> take 2 ?r2 = ''}}''
        then Some (length k + length ?w + 2, []) else None)"
    by (simp add: lits_match tail_match)
  show ?thesis
  proof (cases "take (length k) r = k \<and> take 2 ?r2 = ''}}''")
    case True
    then have r: "r = (k @ ?w) @ ?r2"
      by (metis append.assoc append_take_drop_id takeWhile_dropWhile_id)
    have u: "list_all notClose (k @ ?w)"
      using kn by (auto simp: list_all_iff dest: set_takeWhileD)
    have t1: "take 1 ?r2 = ''}''" using True by (cases ?r2) auto
    have tw: "takeWhile notClose r = k @ ?w" and dw: "dropWhile notClose r = ?r2"
      using notClose_takeWhile_app [OF u t1] r by metis+
    have "spaces ?w" by (auto simp: spaces_def list_all_iff dest: set_takeWhileD)
    then show ?thesis using True m tw dw by auto
  next
    case False
    have "\<not> (take 2 (dropWhile notClose r) = ''}}''
           \<and> (\<exists>w2. takeWhile notClose r = k @ w2 \<and> spaces w2))"
    proof
      assume a: "take 2 (dropWhile notClose r) = ''}}''
           \<and> (\<exists>w2. takeWhile notClose r = k @ w2 \<and> spaces w2)"
      then obtain w2 where w: "takeWhile notClose r = k @ w2" "spaces w2" by blast
      let ?d = "dropWhile notClose r"
      have r: "r = k @ w2 @ ?d" using w(1)
        by (metis append.assoc takeWhile_dropWhile_id)
      then have 1: "take (length k) r = k" by (metis append_eq_conv_conj)
      have 2: "?r1 = w2 @ ?d" using r by (metis append_eq_conv_conj)
      have "\<not> isSpace (hd ?d)" using a by (cases ?d) auto
      moreover have "?d \<noteq> []" by (metis a list.distinct(1) take_Nil)
      ultimately have "dropWhile isSpace ?d = ?d" by (cases ?d) auto
      then have "?r2 = ?d" unfolding 2 using w(2) by (simp add: dropWhile_spaces)
      with a 1 False show False by simp
    qed
    then show ?thesis using False m by simp
  qed
qed

lemma accK_Nil_left:
  assumes "\<exists>w2. C = k @ w2 \<and> spaces w2"
  shows "accK k C"
proof -
  from assms obtain w2 where "C = [] @ k @ w2" "spaces w2" by auto
  moreover have "spaces []" by (simp add: spaces_def)
  ultimately show ?thesis unfolding accK_def by blast
qed

lemma key_ws:
  assumes "CHR ''}'' \<notin> set k"
  shows "matchHere (Item isSpace Star False # lits k @ closeTail) r
     = (if take 2 (dropWhile notClose r) = ''}}'' \<and> accK k (takeWhile notClose r)
        then Some (length (takeWhile notClose r) + 2, []) else None)"
proof (induction r)
  case Nil
  show ?case using key_tail [OF assms, of "[]"] by simp
next
  case (Cons c r)
  let ?Q = "lits k @ closeTail"
  let ?T = "takeWhile notClose" and ?D = "dropWhile notClose"
  show ?case
  proof (cases "isSpace c")
    case False
    have e: "accK k (?T (c # r)) = (\<exists>w2. ?T (c # r) = k @ w2 \<and> spaces w2)"
    proof
      assume "accK k (?T (c # r))"
      then obtain w1 w2 where w: "?T (c # r) = w1 @ k @ w2" "spaces w1" "spaces w2"
        unfolding accK_def by blast
      have "w1 = []"
      proof (cases w1)
        case (Cons a w1')
        with w(2) have "isSpace a" by (simp add: spaces_def)
        moreover have "a = c" using w(1) Cons by (cases "notClose c") auto
        ultimately show ?thesis using False by simp
      qed simp
      with w show "\<exists>w2. ?T (c # r) = k @ w2 \<and> spaces w2" by auto
    qed (rule accK_Nil_left)
    have "matchHere (Item isSpace Star False # ?Q) (c # r) = matchHere ?Q (c # r)"
      using False by simp
    then show ?thesis unfolding key_tail [OF assms] e .
  next
    case True
    then have nc: "notClose c" by simp
    show ?thesis
    proof (cases "take 2 (?D r) = ''}}'' \<and> accK k (?T r)")
      case t: True
      then obtain w1 w2 where w: "?T r = w1 @ k @ w2" "spaces w1" "spaces w2"
        unfolding accK_def by blast
      have "?T (c # r) = (c # w1) @ k @ w2" using nc w(1) by simp
      moreover have "spaces (c # w1)" using True w(2) by (simp add: spaces_def)
      ultimately have "accK k (?T (c # r))" unfolding accK_def using w(3) by blast
      moreover have "matchHere (Item isSpace Star False # ?Q) (c # r)
                 = Some (length (?T r) + 3, [])"
        using True t Cons.IH by (simp add: took_def)
      ultimately show ?thesis using nc t by simp
    next
      case f: False
      have e: "(take 2 (?D (c # r)) = ''}}'' \<and> accK k (?T (c # r)))
               = (take 2 (?D (c # r)) = ''}}'' \<and> (\<exists>w2. ?T (c # r) = k @ w2 \<and> spaces w2))"
      proof (intro iffI conjI)
        assume a: "take 2 (?D (c # r)) = ''}}'' \<and> accK k (?T (c # r))"
        then show "take 2 (?D (c # r)) = ''}}''" by simp
        from a obtain w1 w2 where w: "?T (c # r) = w1 @ k @ w2" "spaces w1" "spaces w2"
          unfolding accK_def by blast
        have "w1 = []"
        proof (cases w1)
          case (Cons a w1')
          with w(1) nc have "?T r = w1' @ k @ w2" by simp
          moreover have "spaces w1'" using w(2) Cons by (simp add: spaces_def)
          ultimately have "accK k (?T r)" unfolding accK_def using w(3) by blast
          with a f nc show ?thesis by simp
        qed simp
        with w show "\<exists>w2. ?T (c # r) = k @ w2 \<and> spaces w2" by auto
      next
        assume "take 2 (?D (c # r)) = ''}}'' \<and> (\<exists>w2. ?T (c # r) = k @ w2 \<and> spaces w2)"
        then show "take 2 (?D (c # r)) = ''}}''" and "accK k (?T (c # r))"
          using accK_Nil_left by blast+
      qed
      have "matchHere (Item isSpace Star False # ?Q) r = None"
        using f Cons.IH by (simp only: if_False)
      then have "matchHere (Item isSpace Star False # ?Q) (c # r) = matchHere ?Q (c # r)"
        using True by simp
      then show ?thesis unfolding key_tail [OF assms] e .
    qed
  qed
qed

lemma placeholderRegex_braced:
  assumes "literalName k"
  shows "\<exists>re. placeholderRegex k = Some re \<and> (\<forall>s. matchHere re s = braced (accK k) (\<lambda>C. []) s)"
proof -
  let ?re = "Item (isChr CHR ''{'') One False # Item (isChr CHR ''{'') One False
               # Item isSpace Star False # lits k @ closeTail"
  have nb: "CHR ''}'' \<notin> set k" using literal_no_brace [OF assms] by simp
  have p: "placeholderRegex k = Some ?re"
    by (simp add: placeholderRegex_def patternOfName_literal [OF assms] closeTail_def)
  have "matchHere ?re s = braced (accK k) (\<lambda>C. []) s" for s
  proof (cases s)
    case Nil
    then show ?thesis by (simp add: braced_def)
  next
    case (Cons a s1)
    show ?thesis
    proof (cases s1)
      case Nil
      with Cons show ?thesis by (simp add: braced_def isChr_def)
    next
      case (Cons b r)
      show ?thesis
        unfolding \<open>s = a # s1\<close> Cons
        by (simp add: key_ws [OF nb] braced_def isChr_def took_def del: matchHere.simps(5,7))
    qed
  qed
  with p show ?thesis by blast
qed

lemma settled_suffix: "settled (a @ b) \<Longrightarrow> settled b"
  by (induction a) simp_all

lemma braced_length:
  assumes "braced acc capf s = Some (n, cap)"
  shows "0 < n" and "n \<le> length s" and "CHR ''}'' \<in> set (drop 2 s)" and "take 2 s = ''{{''"
    and "acc (takeWhile notClose (drop 2 s))" and "n = length (takeWhile notClose (drop 2 s)) + 4"
proof -
  let ?r = "drop 2 s"
  let ?C = "takeWhile notClose ?r" and ?d = "dropWhile notClose ?r"
  from assms have o: "take 2 s = ''{{''" and d: "take 2 ?d = ''}}''" and a: "acc ?C"
    and n: "n = length ?C + 4"
    by (auto simp: braced_def split: if_splits)
  show "0 < n" using n by simp
  show "take 2 s = ''{{''" by (rule o)
  show "acc ?C" by (rule a)
  show "n = length ?C + 4" by (rule n)
  have ld: "2 \<le> length ?d"
    by (metis d length_take min.cobounded1 length_Cons list.size(3) numeral_2_eq_2)
  have ls: "2 \<le> length s"
    by (metis o length_take min.cobounded1 length_Cons list.size(3) numeral_2_eq_2)
  have "length ?r = length ?C + length ?d"
    by (metis length_append takeWhile_dropWhile_id)
  then show "n \<le> length s" using n ld ls by simp
  have "?d \<noteq> []"
  proof
    assume "?d = []"
    then have "length ?d = 0" by (simp only: list.size)
    with ld show False by simp
  qed
  then have "hd ?d \<in> set ?r" by (metis hd_in_set set_dropWhileD)
  moreover have "hd ?d = CHR ''}''" using d by (cases ?d) auto
  ultimately show "CHR ''}'' \<in> set ?r" by simp
qed

lemma braced_local:
  assumes c: "CHR ''}'' \<in> set (drop 2 p)" and s: "s = [] \<or> hd s \<noteq> CHR ''}''"
  shows "braced acc capf (p @ s) = braced acc capf p"
proof -
  let ?r = "drop 2 p"
  have l: "2 < length p" using c by (cases p; cases "tl p") auto
  have nc: "\<not> notClose CHR ''}''" by (simp add: notClose_def)
  have 1: "take 2 (p @ s) = take 2 p" using l by simp
  have 2: "drop 2 (p @ s) = ?r @ s" using l by simp
  have 3: "takeWhile notClose (?r @ s) = takeWhile notClose ?r"
    using c nc by (rule takeWhile_append1)
  have 4: "dropWhile notClose (?r @ s) = dropWhile notClose ?r @ s"
    using c nc by (rule dropWhile_append1)
  obtain d' where d: "dropWhile notClose ?r = CHR ''}'' # d'"
  proof -
    have "dropWhile notClose ?r \<noteq> []" using c nc by (metis dropWhile_eq_Nil_conv)
    moreover have "\<not> notClose (hd (dropWhile notClose ?r))"
      using calculation by (rule hd_dropWhile)
    ultimately show ?thesis using that by (cases "dropWhile notClose ?r") (auto simp: notClose_def)
  qed
  have 5: "(take 2 (dropWhile notClose ?r @ s) = ''}}'') = (take 2 (dropWhile notClose ?r) = ''}}'')"
    unfolding d using s by (cases d'; cases s) auto
  show ?thesis unfolding braced_def 1 2 3 4 5 ..
qed

lemma braced_None_append:
  assumes "braced acc capf (p @ s) = None" and "s = [] \<or> hd s \<noteq> CHR ''}''"
  shows "braced acc capf p = None"
proof (cases "braced acc capf p")
  case (Some m)
  then have "CHR ''}'' \<in> set (drop 2 p)" using braced_length(3) by (cases m) auto
  then have "braced acc capf (p @ s) = braced acc capf p" using assms(2) by (rule braced_local)
  with Some assms(1) show ?thesis by simp
qed simp

lemma inside_settled:
  assumes "settled p" and "take 1 s = ''{''" and "p \<noteq> []"
  shows "braced acc capf (p @ s) = braced acc capf p"
proof -
  have s: "s = [] \<or> hd s \<noteq> CHR ''}''" using assms(2) by (cases s) auto
  obtain s1 where s1: "s = CHR ''{'' # s1" using assms(2) by (cases s) auto
  obtain c r where p: "p = c # r" using assms(3) by (cases p) auto
  show ?thesis
  proof (cases "braced acc capf (p @ s)")
    case None
    then show ?thesis using braced_None_append [OF None s] by simp
  next
    case (Some m)
    obtain n cap where m: "m = (n, cap)" by (cases m)
    have o: "take 2 (p @ s) = ''{{''" using braced_length(4) Some m by blast
    have "take 2 (c # r @ ''{'') = ''{{''"
      using o unfolding p s1 by (cases r) auto
    then have "CHR ''}'' \<in> set (tl r)" using assms(1) unfolding p by simp
    then have "CHR ''}'' \<in> set (drop 2 p)" unfolding p by (simp add: drop_Suc)
    then show ?thesis using s by (rule braced_local)
  qed
qed

lemma inside_key:
  assumes acc: "\<And>C. acc C \<Longrightarrow> CHR ''{'' \<notin> set C" and s: "take 2 s = ''{{''" and p: "p \<noteq> []"
  shows "braced acc capf (p @ s) = braced acc capf p"
proof -
  obtain s2 where s2: "s = CHR ''{'' # CHR ''{'' # s2"
    using s by (cases s; cases "tl s") auto
  have s': "s = [] \<or> hd s \<noteq> CHR ''}''" using s2 by simp
  show ?thesis
  proof (cases "braced acc capf (p @ s)")
    case None
    then show ?thesis using braced_None_append [OF None s'] by simp
  next
    case (Some m)
    obtain n cap where m: "m = (n, cap)" by (cases m)
    let ?C = "takeWhile notClose (drop 2 (p @ s))"
    have a: "acc ?C" using braced_length(5) Some m by blast
    then have no: "CHR ''{'' \<notin> set ?C" by (rule acc)
    have no': "notClose CHR ''{''" by (simp add: notClose_def)
    have "CHR ''}'' \<in> set (drop 2 p)"
    proof (rule ccontr)
      assume n: "CHR ''}'' \<notin> set (drop 2 p)"
      then have all: "\<forall>x\<in>set (drop 2 p). notClose x" by (auto simp: notClose_def)
      show False
      proof (cases "2 \<le> length p")
        case True
        then have "?C = drop 2 p @ takeWhile notClose s"
          using all by (simp add: takeWhile_append2)
        then have "CHR ''{'' \<in> set ?C" unfolding s2 using no' by simp
        with no show False by simp
      next
        case False
        then obtain a where "p = [a]" using p by (cases p; cases "tl p") auto
        then have "?C = CHR ''{'' # takeWhile notClose s2" unfolding s2 using no' by simp
        with no show False by simp
      qed
    qed
    then show ?thesis using s' by (rule braced_local)
  qed
qed

lemma braced_placeholder:
  assumes "list_all notClose C"
  shows "braced acc capf (''{{'' @ C @ ''}}'' @ post)
           = (if acc C then Some (length C + 4, capf C) else None)"
proof -
  have "takeWhile notClose (C @ ''}}'' @ post) = C" and "dropWhile notClose (C @ ''}}'' @ post) = ''}}'' @ post"
    using notClose_takeWhile_app [OF assms, of "''}}'' @ post"] by simp_all
  then show ?thesis by (simp add: braced_def)
qed

lemma execAll_append:
  assumes re: "\<And>t. matchHere re t = braced acc capf t"
    and ins: "\<And>a b. pre = a @ b \<Longrightarrow> b \<noteq> [] \<Longrightarrow> braced acc capf (b @ s) = braced acc capf b"
  shows "execAll re (pre @ s) = execAll re pre @ execAll re s"
  using ins
proof (induction pre rule: length_induct)
  case (1 pre)
  show ?case
  proof (cases pre)
    case Nil
    then show ?thesis by simp
  next
    case (Cons c p)
    have e: "braced acc capf (pre @ s) = braced acc capf pre"
      using "1.prems" [of "[]" pre] Cons by simp
    show ?thesis
    proof (cases "braced acc capf pre")
      case None
      have "execAll re (p @ s) = execAll re p @ execAll re s"
      proof (rule "1.IH" [rule_format])
        show "length p < length pre" using Cons by simp
        show "braced acc capf (b @ s) = braced acc capf b" if "p = a @ b" "b \<noteq> []" for a b
          using "1.prems" [of "c # a" b] that Cons by simp
      qed
      then show ?thesis using None e Cons by (simp add: re)
    next
      case (Some m)
      obtain n cap where m: "m = (n, cap)" by (cases m)
      from braced_length(1,2) [of acc capf pre n cap] Some m
      obtain k where k: "n = Suc k" "k \<le> length p" using Cons by (cases n) auto
      have "execAll re (drop k p @ s) = execAll re (drop k p) @ execAll re s"
      proof (rule "1.IH" [rule_format])
        show "length (drop k p) < length pre" using Cons by simp
        show "braced acc capf (b @ s) = braced acc capf b" if "drop k p = a @ b" "b \<noteq> []" for a b
        proof -
          have "pre = (c # take k p @ a) @ b" using that(1) Cons
            by (metis append.assoc append_Cons append_take_drop_id)
          then show ?thesis using that(2) by (rule "1.prems")
        qed
      qed
      then show ?thesis using Some m k e Cons by (simp add: re)
    qed
  qed
qed

lemma execAll_placeholder:
  assumes re: "\<And>t. matchHere re t = braced acc capf t"
    and "list_all notClose C" and "acc C"
  shows "execAll re (''{{'' @ C @ ''}}'' @ post) = capf C # execAll re post"
proof -
  have m: "matchHere re (CHR ''{'' # CHR ''{'' # C @ ''}}'' @ post) = Some (Suc (length C + 3), capf C)"
    using braced_placeholder [OF assms(2), of acc capf post] assms(3) by (simp add: re)
  have d: "drop (length C + 3) (CHR ''{'' # C @ ''}}'' @ post) = post"
    by (simp add: numeral_3_eq_3)
  have "execAll re (CHR ''{'' # CHR ''{'' # C @ ''}}'' @ post)
          = capf C # execAll re (drop (length C + 3) (CHR ''{'' # C @ ''}}'' @ post))"
    by (subst execAll.simps) (simp only: m option.case prod.case nat.case)
  then show ?thesis unfolding d by simp
qed

lemma scanVariables_names:
  "scanVariables t vs = foldl (\<lambda>vs n. addVariable n vs) vs (map trim (execAll variableRegex t))"
  by (simp add: scanVariables_def foldl_map)

lemma distinct_addVariable: "distinct vs \<Longrightarrow> distinct (addVariable n vs)"
  by (simp add: addVariable_def)

lemma distinct_foldl_addVariable:
  "distinct vs \<Longrightarrow> distinct (foldl (\<lambda>vs n. addVariable n vs) vs ns)"
  by (induction ns arbitrary: vs) (simp_all add: distinct_addVariable)

lemma set_foldl_addVariable:
  "set (foldl (\<lambda>vs n. addVariable n vs) vs ns) = set vs \<union> set ns"
  by (induction ns arbitrary: vs) (auto simp: addVariable_def)

lemma distinct_scanVariables: "distinct vs \<Longrightarrow> distinct (scanVariables t vs)"
  by (simp add: scanVariables_names distinct_foldl_addVariable)

lemma set_scanVariables_eq:
  "set (scanVariables t vs) = set vs \<union> trim ` set (execAll variableRegex t)"
  by (simp add: scanVariables_names set_foldl_addVariable)

lemma scanVariables_whitespace:
  assumes p: "settled pre" and w: "list_all isSpace ws1" "list_all isSpace ws2"
    and x: "X \<noteq> []" "CHR ''}'' \<notin> set X"
  shows "scanVariables (pre @ ''{{'' @ ws1 @ X @ ws2 @ ''}}'' @ post) vs
           = scanVariables (pre @ ''{{'' @ X @ ''}}'' @ post) vs"
proof -
  let ?re = variableRegex
  have re: "\<And>t. matchHere ?re t = braced (\<lambda>C. C \<noteq> []) capOf t"
    by (rule variableRegex_braced)
  have ins: "braced (\<lambda>C. C \<noteq> []) capOf (b @ ''{{'' @ u) = braced (\<lambda>C. C \<noteq> []) capOf b"
    if "pre = a @ b" "b \<noteq> []" for a b u
    using p that by (intro inside_settled) (auto dest: settled_suffix)
  have nx: "list_all notClose X" using x(2) by (auto simp: list_all_iff notClose_def)
  have nw: "list_all notClose (ws1 @ X @ ws2)"
    using nx w by (auto simp: list_all_iff)
  have 1: "execAll ?re (pre @ ''{{'' @ (ws1 @ X @ ws2) @ ''}}'' @ post)
             = execAll ?re pre @ capOf (ws1 @ X @ ws2) # execAll ?re post"
    using execAll_append [of ?re "\<lambda>C. C \<noteq> []" capOf pre "''{{'' @ (ws1 @ X @ ws2) @ ''}}'' @ post",
        OF re ins]
      execAll_placeholder [of ?re "\<lambda>C. C \<noteq> []" capOf, OF re nw] x(1) by simp
  have 2: "execAll ?re (pre @ ''{{'' @ X @ ''}}'' @ post)
             = execAll ?re pre @ capOf X # execAll ?re post"
    using execAll_append [of ?re "\<lambda>C. C \<noteq> []" capOf pre "''{{'' @ X @ ''}}'' @ post", OF re ins]
      execAll_placeholder [of ?re "\<lambda>C. C \<noteq> []" capOf, OF re nx] x(1) by simp
  have "trim (capOf (ws1 @ X @ ws2)) = trim (ws1 @ X @ ws2)"
    using x(1) by (intro trim_capOf) simp
  also have "\<dots> = trim X" using w by (intro trim_spaces) (simp_all add: spaces_def)
  also have "\<dots> = trim (capOf X)" using x(1) by (simp add: trim_capOf)
  finally have t: "trim (capOf (ws1 @ X @ ws2)) = trim (capOf X)" .
  show ?thesis
    using 1 2 t by (simp add: scanVariables_names)
qed

lemma getSubstitution_empty [simp]: "getSubstitution m sc b [] = []"
  by simp

lemma replaceAll_copy:
  assumes "\<And>a b. u = a @ b \<Longrightarrow> b \<noteq> [] \<Longrightarrow> matchHere re (b @ post) = None"
  shows "replaceAll re v sc (u @ post) = u @ replaceAll re v (sc @ u) post"
  using assms
proof (induction u arbitrary: sc)
  case Nil
  show ?case by simp
next
  case (Cons c u)
  have n: "matchHere re (c # u @ post) = None" using Cons.prems [of "[]" "c # u"] by simp
  have "replaceAll re v (sc @ [c]) (u @ post) = u @ replaceAll re v ((sc @ [c]) @ u) post"
  proof (rule Cons.IH)
    show "matchHere re (b @ post) = None" if "u = a @ b" "b \<noteq> []" for a b
      using Cons.prems [of "c # a" b] that by simp
  qed
  then show ?case using n by simp
qed

lemma replaceAll_append_ex:
  assumes re: "\<And>t. matchHere re t = braced acc capf t"
    and ins: "\<And>a b. pre = a @ b \<Longrightarrow> b \<noteq> [] \<Longrightarrow> braced acc capf (b @ s) = braced acc capf b"
  shows "\<exists>pre'. replaceAll re v sc (pre @ s) = pre' @ replaceAll re v (sc @ pre) s"
  using ins
proof (induction pre arbitrary: sc rule: length_induct)
  case (1 pre)
  show ?case
  proof (cases pre)
    case Nil
    then show ?thesis by simp
  next
    case (Cons c p)
    have e: "braced acc capf (pre @ s) = braced acc capf pre"
      using "1.prems" [of "[]" pre] Cons by simp
    show ?thesis
    proof (cases "braced acc capf pre")
      case None
      have "\<exists>pre'. replaceAll re v (sc @ [c]) (p @ s) = pre' @ replaceAll re v ((sc @ [c]) @ p) s"
      proof (rule "1.IH" [rule_format])
        show "length p < length pre" using Cons by simp
        show "braced acc capf (b @ s) = braced acc capf b" if "p = a @ b" "b \<noteq> []" for a b
          using "1.prems" [of "c # a" b] that Cons by simp
      qed
      then obtain pre' where
        "replaceAll re v (sc @ [c]) (p @ s) = pre' @ replaceAll re v (sc @ pre) s"
        using Cons by auto
      then have "replaceAll re v sc (pre @ s) = (c # pre') @ replaceAll re v (sc @ pre) s"
        using None e Cons by (simp add: re)
      then show ?thesis by blast
    next
      case (Some m)
      obtain n cap where m: "m = (n, cap)" by (cases m)
      from braced_length(1,2) [of acc capf pre n cap] Some m
      obtain k where k: "n = Suc k" "k \<le> length p" using Cons by (cases n) auto
      let ?sc = "sc @ c # take k p"
      have "\<exists>pre'. replaceAll re v ?sc (drop k p @ s) = pre' @ replaceAll re v (?sc @ drop k p) s"
      proof (rule "1.IH" [rule_format])
        show "length (drop k p) < length pre" using Cons by simp
        show "braced acc capf (b @ s) = braced acc capf b" if "drop k p = a @ b" "b \<noteq> []" for a b
        proof -
          have "pre = (c # take k p @ a) @ b" using that(1) Cons
            by (metis append.assoc append_Cons append_take_drop_id)
          then show ?thesis using that(2) by (rule "1.prems")
        qed
      qed
      then obtain pre' where
        p: "replaceAll re v ?sc (drop k p @ s) = pre' @ replaceAll re v (sc @ pre) s"
        using Cons by auto
      have "replaceAll re v sc (pre @ s)
              = (getSubstitution (c # take k p) sc (drop k p @ s) v @ pre')
                  @ replaceAll re v (sc @ pre) s"
        using Some m k e Cons p by (simp add: re)
      then show ?thesis by blast
    qed
  qed
qed

lemma getSubstitution_plain: "CHR ''$'' \<notin> set v \<Longrightarrow> getSubstitution m sc b v = v"
  by (induction m sc b v rule: getSubstitution.induct) auto

lemma replaceAll_plain_sc:
  assumes "CHR ''$'' \<notin> set v"
  shows "replaceAll re v sc t = replaceAll re v sc' t"
proof (induction t arbitrary: sc sc' rule: length_induct)
  case (1 t)
  show ?case
  proof (cases t)
    case Nil
    then show ?thesis by simp
  next
    case (Cons c r)
    show ?thesis
    proof (cases "matchHere re (c # r)")
      case None
      then show ?thesis using Cons "1.IH" [rule_format, of r "sc @ [c]" "sc' @ [c]"] by simp
    next
      case (Some m)
      obtain n cap where m: "m = (n, cap)" by (cases m)
      show ?thesis
      proof (cases n)
        case 0
        then show ?thesis
          using Some m Cons "1.IH" [rule_format, of r "sc @ [c]" "sc' @ [c]"] by simp
      next
        case (Suc k)
        have "length (drop k r) < length t" using Cons by simp
        then show ?thesis
          using Some m Suc Cons
            "1.IH" [rule_format, of "drop k r" "sc @ c # take k r" "sc' @ c # take k r"]
          by (simp add: getSubstitution_plain [OF assms])
      qed
    qed
  qed
qed

lemma replaceAll_append_plain:
  assumes re: "\<And>t. matchHere re t = braced acc capf t"
    and ins: "\<And>a b. pre = a @ b \<Longrightarrow> b \<noteq> [] \<Longrightarrow> braced acc capf (b @ s) = braced acc capf b"
    and v: "CHR ''$'' \<notin> set v"
  shows "replaceAll re v sc (pre @ s) = replaceAll re v sc pre @ replaceAll re v sc s"
  using ins
proof (induction pre arbitrary: sc rule: length_induct)
  case (1 pre)
  show ?case
  proof (cases pre)
    case Nil
    then show ?thesis by simp
  next
    case (Cons c p)
    have e: "braced acc capf (pre @ s) = braced acc capf pre"
      using "1.prems" [of "[]" pre] Cons by simp
    show ?thesis
    proof (cases "braced acc capf pre")
      case None
      have "replaceAll re v (sc @ [c]) (p @ s)
              = replaceAll re v (sc @ [c]) p @ replaceAll re v (sc @ [c]) s"
      proof (rule "1.IH" [rule_format])
        show "length p < length pre" using Cons by simp
        show "braced acc capf (b @ s) = braced acc capf b" if "p = a @ b" "b \<noteq> []" for a b
          using "1.prems" [of "c # a" b] that Cons by simp
      qed
      then show ?thesis
        using None e Cons replaceAll_plain_sc [OF v, of re "sc @ [c]" s sc] by (simp add: re)
    next
      case (Some m)
      obtain n cap where m: "m = (n, cap)" by (cases m)
      from braced_length(1,2) [of acc capf pre n cap] Some m
      obtain k where k: "n = Suc k" "k \<le> length p" using Cons by (cases n) auto
      let ?sc = "sc @ c # take k p"
      have "replaceAll re v ?sc (drop k p @ s)
              = replaceAll re v ?sc (drop k p) @ replaceAll re v ?sc s"
      proof (rule "1.IH" [rule_format])
        show "length (drop k p) < length pre" using Cons by simp
        show "braced acc capf (b @ s) = braced acc capf b" if "drop k p = a @ b" "b \<noteq> []" for a b
        proof -
          have "pre = (c # take k p @ a) @ b" using that(1) Cons
            by (metis append.assoc append_Cons append_take_drop_id)
          then show ?thesis using that(2) by (rule "1.prems")
        qed
      qed
      then show ?thesis
        using Some m k e Cons replaceAll_plain_sc [OF v, of re ?sc s sc]
        by (simp add: re getSubstitution_plain [OF v])
    qed
  qed
qed

lemma replaceAll_placeholder:
  assumes re: "\<And>t. matchHere re t = braced acc capf t"
    and "list_all notClose C" and "acc C"
  shows "replaceAll re v sc (''{{'' @ C @ ''}}'' @ post)
           = getSubstitution (''{{'' @ C @ ''}}'') sc post v
               @ replaceAll re v (sc @ ''{{'' @ C @ ''}}'') post"
proof -
  have m: "matchHere re (CHR ''{'' # CHR ''{'' # C @ ''}}'' @ post) = Some (Suc (length C + 3), capf C)"
    using braced_placeholder [OF assms(2), of acc capf post] assms(3) by (simp add: re)
  have d: "drop (length C + 3) (CHR ''{'' # C @ ''}}'' @ post) = post"
    and t: "take (length C + 3) (CHR ''{'' # C @ ''}}'' @ post) = CHR ''{'' # C @ ''}}''"
    by (simp_all add: numeral_3_eq_3)
  have "replaceAll re v sc (CHR ''{'' # CHR ''{'' # C @ ''}}'' @ post)
          = getSubstitution (CHR ''{'' # take (length C + 3) (CHR ''{'' # C @ ''}}'' @ post)) sc
              (drop (length C + 3) (CHR ''{'' # C @ ''}}'' @ post)) v
            @ replaceAll re v (sc @ CHR ''{'' # take (length C + 3) (CHR ''{'' # C @ ''}}'' @ post))
                (drop (length C + 3) (CHR ''{'' # C @ ''}}'' @ post))"
    by (subst replaceAll.simps) (simp only: m option.case prod.case nat.case)
  then show ?thesis unfolding d t by simp
qed

lemma accK_no_open:
  assumes "literalName k" and "accK k C"
  shows "CHR ''{'' \<notin> set C"
proof -
  from assms(2) obtain w1 w2 where "C = w1 @ k @ w2" "spaces w1" "spaces w2"
    unfolding accK_def by blast
  moreover have "CHR ''{'' \<notin> set w" if "spaces w" for w
    using that by (auto simp: spaces_def list_all_iff)
  ultimately show ?thesis using literal_no_brace [OF assms(1)] by auto
qed

lemma accK_trim: "accK k C \<Longrightarrow> trim C = trim k"
  unfolding accK_def using trim_spaces by blast

lemma inside_placeholder:
  assumes c: "CHR ''{'' \<notin> set C"
    and e: "''{{'' @ C @ ''}}'' = a @ b" and a: "a \<noteq> []" and b: "b \<noteq> []"
  shows "take 2 (b @ post) \<noteq> ''{{''"
proof (cases a)
  case Nil
  with a show ?thesis by simp
next
  case (Cons x a1)
  show ?thesis
  proof (cases a1)
    case Nil
    with Cons e have b': "b = CHR ''{'' # C @ ''}}''" by auto
    show ?thesis unfolding b' using c by (cases C) auto
  next
    case c2: (Cons y a2)
    with Cons e have "C @ ''}}'' = a2 @ b" by simp
    then have "hd b \<in> set (C @ ''}}'')" using b
      by (metis hd_in_set in_set_conv_decomp list.exhaust_sel append.assoc append_Cons)
    then have "hd b \<noteq> CHR ''{''" using c by auto
    then show ?thesis using b by (cases b) auto
  qed
qed

lemma replaceAll_keeps:
  assumes k: "literalName k" and t: "trim k \<noteq> trim name"
    and w: "list_all isSpace ws1" "list_all isSpace ws2"
    and n: "CHR ''{'' \<notin> set name" "CHR ''}'' \<notin> set name"
  shows "\<exists>re pre' post'. placeholderRegex k = Some re \<and>
           replaceAll re v [] (pre @ (''{{'' @ ws1 @ name @ ws2 @ ''}}'') @ post)
             = pre' @ (''{{'' @ ws1 @ name @ ws2 @ ''}}'') @ post'"
proof -
  let ?C = "ws1 @ name @ ws2"
  let ?ph = "''{{'' @ ?C @ ''}}''"
  from placeholderRegex_braced [OF k] obtain re where
    p: "placeholderRegex k = Some re" and re: "\<And>s. matchHere re s = braced (accK k) (\<lambda>C. []) s"
    by blast
  have sw: "spaces ws1" "spaces ws2" using w by (simp_all add: spaces_def)
  have co: "CHR ''{'' \<notin> set ?C" using n(1) w by (auto simp: list_all_iff)
  have cc: "list_all notClose ?C" using n(2) w by (auto simp: list_all_iff notClose_def)
  have na: "\<not> accK k ?C"
  proof
    assume "accK k ?C"
    then have "trim ?C = trim k" by (rule accK_trim)
    moreover have "trim ?C = trim name" using sw by (rule trim_spaces)
    ultimately show False using t by simp
  qed
  have ins: "braced (accK k) (\<lambda>C. []) (b @ ?ph @ post) = braced (accK k) (\<lambda>C. []) b"
    if "pre = a @ b" "b \<noteq> []" for a b
    using that(2) by (intro inside_key accK_no_open [OF k]) simp_all
  have "\<exists>pre'. replaceAll re v [] (pre @ ?ph @ post)
                  = pre' @ replaceAll re v ([] @ pre) (?ph @ post)"
  proof (rule replaceAll_append_ex)
    show "matchHere re t = braced (accK k) (\<lambda>C. []) t" for t by (rule re)
    show "braced (accK k) (\<lambda>C. []) (b @ ?ph @ post) = braced (accK k) (\<lambda>C. []) b"
      if "pre = a @ b" "b \<noteq> []" for a b using that by (rule ins)
  qed
  then obtain pre' where 1: "replaceAll re v [] (pre @ ?ph @ post)
                          = pre' @ replaceAll re v ([] @ pre) (?ph @ post)" by blast
  have none: "matchHere re (b @ post) = None" if "?ph = a @ b" "b \<noteq> []" for a b
  proof (cases "a = []")
    case True
    with that have "b = ?ph" by simp
    then show ?thesis
      using braced_placeholder [OF cc, of "accK k" "\<lambda>C. []" post] na by (simp add: re)
  next
    case False
    have "take 2 (b @ post) \<noteq> ''{{''"
      using co that(1) False that(2) by (rule inside_placeholder)
    then show ?thesis by (simp add: re braced_def)
  qed
  have 2: "replaceAll re v pre (?ph @ post) = ?ph @ replaceAll re v (pre @ ?ph) post"
    using none by (rule replaceAll_copy)
  show ?thesis using p 1 2 by (intro exI [of _ re] exI [of _ pre'] exI) simp
qed

lemma replaceAll_keeps_plain:
  assumes k: "literalName k" and t: "trim k \<noteq> trim name"
    and w: "list_all isSpace ws1" "list_all isSpace ws2"
    and n: "CHR ''{'' \<notin> set name" "CHR ''}'' \<notin> set name"
    and v: "CHR ''$'' \<notin> set v"
  shows "\<exists>re. placeholderRegex k = Some re \<and>
           replaceAll re v [] (pre @ ''{{'' @ ws1 @ name @ ws2 @ ''}}'' @ post)
             = replaceAll re v [] pre @ ''{{'' @ ws1 @ name @ ws2 @ ''}}'' @ replaceAll re v [] post"
proof -
  let ?C = "ws1 @ name @ ws2"
  let ?ph = "''{{'' @ ?C @ ''}}''"
  from placeholderRegex_braced [OF k] obtain re where
    p: "placeholderRegex k = Some re" and re: "\<And>s. matchHere re s = braced (accK k) (\<lambda>C. []) s"
    by blast
  have sw: "spaces ws1" "spaces ws2" using w by (simp_all add: spaces_def)
  have co: "CHR ''{'' \<notin> set ?C" using n(1) w by (auto simp: list_all_iff)
  have cc: "list_all notClose ?C" using n(2) w by (auto simp: list_all_iff notClose_def)
  have na: "\<not> accK k ?C"
  proof
    assume "accK k ?C"
    then have "trim ?C = trim k" by (rule accK_trim)
    moreover have "trim ?C = trim name" using sw by (rule trim_spaces)
    ultimately show False using t by simp
  qed
  have ins: "braced (accK k) (\<lambda>C. []) (b @ ?ph @ post) = braced (accK k) (\<lambda>C. []) b"
    if "pre = a @ b" "b \<noteq> []" for a b
    using that(2) by (intro inside_key accK_no_open [OF k]) simp_all
  have 1: "replaceAll re v [] (pre @ ?ph @ post)
             = replaceAll re v [] pre @ replaceAll re v [] (?ph @ post)"
  proof (rule replaceAll_append_plain)
    show "matchHere re t = braced (accK k) (\<lambda>C. []) t" for t by (rule re)
    show "braced (accK k) (\<lambda>C. []) (b @ ?ph @ post) = braced (accK k) (\<lambda>C. []) b"
      if "pre = a @ b" "b \<noteq> []" for a b using that by (rule ins)
    show "CHR ''$'' \<notin> set v" by (rule v)
  qed
  have none: "matchHere re (b @ post) = None" if "?ph = a @ b" "b \<noteq> []" for a b
  proof (cases "a = []")
    case True
    with that have "b = ?ph" by simp
    then show ?thesis
      using braced_placeholder [OF cc, of "accK k" "\<lambda>C. []" post] na by (simp add: re)
  next
    case False
    have "take 2 (b @ post) \<noteq> ''{{''"
      using co that(1) False that(2) by (rule inside_placeholder)
    then show ?thesis by (simp add: re braced_def)
  qed
  have "replaceAll re v [] (?ph @ post) = ?ph @ replaceAll re v ([] @ ?ph) post"
    using none by (rule replaceAll_copy)
  also have "replaceAll re v ([] @ ?ph) post = replaceAll re v [] post"
    using v by (rule replaceAll_plain_sc)
  finally have 2: "replaceAll re v [] (?ph @ post) = ?ph @ replaceAll re v [] post" .
  show ?thesis using p 1 2 by (intro exI [of _ re]) simp
qed

lemma braced_Some_decomp:
  assumes "braced acc capf s = Some m"
  shows "\<exists>C rest. s = ''{{'' @ C @ ''}}'' @ rest \<and> acc C"
proof -
  let ?C = "takeWhile notClose (drop 2 s)"
  let ?D = "dropWhile notClose (drop 2 s)"
  from assms have a: "take 2 s = ''{{''" and b: "take 2 ?D = ''}}''" and c: "acc ?C"
    by (simp_all add: braced_def split: if_splits)
  have "s = take 2 s @ drop 2 s" by simp
  also have "drop 2 s = ?C @ ?D" by simp
  also have "?D = take 2 ?D @ drop 2 ?D" by simp
  finally have "s = ''{{'' @ ?C @ ''}}'' @ drop 2 ?D" unfolding a b .
  with c show ?thesis by blast
qed

lemma replaceAll_absent:
  assumes k: "literalName k"
    and n: "\<forall>pre ws1 ws2 post. list_all isSpace ws1 \<and> list_all isSpace ws2 \<longrightarrow>
              t \<noteq> pre @ ''{{'' @ ws1 @ k @ ws2 @ ''}}'' @ post"
  shows "\<exists>re. placeholderRegex k = Some re \<and> replaceAll re v [] t = t"
proof -
  from placeholderRegex_braced [OF k] obtain re where
    p: "placeholderRegex k = Some re" and re: "\<And>s. matchHere re s = braced (accK k) (\<lambda>C. []) s"
    by blast
  have none: "matchHere re (b @ []) = None" if "t = a @ b" "b \<noteq> []" for a b
  proof (cases "braced (accK k) (\<lambda>C. []) b")
    case None
    then show ?thesis by (simp add: re)
  next
    case (Some m)
    then obtain C rest where b: "b = ''{{'' @ C @ ''}}'' @ rest" and "accK k C"
      using braced_Some_decomp by blast
    then obtain w1 w2 where "C = w1 @ k @ w2" "spaces w1" "spaces w2"
      unfolding accK_def by blast
    then have "t = a @ ''{{'' @ w1 @ k @ w2 @ ''}}'' @ rest"
      and "list_all isSpace w1 \<and> list_all isSpace w2"
      using that(1) b by (simp_all add: spaces_def)
    then show ?thesis using n by blast
  qed
  have "replaceAll re v [] (t @ []) = t @ replaceAll re v ([] @ t) []"
    using none by (rule replaceAll_copy)
  then show ?thesis using p by simp
qed

lemma falsy_orEmpty: "\<not> truthy v \<Longrightarrow> toString (orEmpty v) = []"
  by (simp add: orEmpty_def)

lemma replaceVariables_falsy:
  "\<not> truthy v \<Longrightarrow>
     replaceVariables t (xs @ (k, v) # ys) = replaceVariables t (xs @ (k, JStr []) # ys)"
proof (induction xs arbitrary: t)
  case Nil
  then show ?case by (simp add: falsy_orEmpty split: option.split)
next
  case (Cons x xs)
  obtain k' v' where "x = (k', v')" by (cases x)
  then show ?case using Cons by (simp split: option.split)
qed

lemma replaceVariables_deletes:
  assumes k: "literalName k" and w: "list_all isSpace ws1" "list_all isSpace ws2"
    and v: "\<not> truthy v"
  shows "\<exists>a b. replaceVariables pre [(k, v)] = Some a \<and> replaceVariables post [(k, v)] = Some b
           \<and> replaceVariables (pre @ ''{{'' @ ws1 @ k @ ws2 @ ''}}'' @ post) [(k, v)] = Some (a @ b)"
proof -
  let ?C = "ws1 @ k @ ws2"
  let ?ph = "''{{'' @ ?C @ ''}}''"
  from placeholderRegex_braced [OF k] obtain re where
    p: "placeholderRegex k = Some re" and re: "\<And>s. matchHere re s = braced (accK k) (\<lambda>C. []) s"
    by blast
  have acc: "accK k ?C" unfolding accK_def using w by (auto simp: spaces_def)
  have cc: "list_all notClose ?C"
    using literal_no_brace [OF k] w by (auto simp: list_all_iff notClose_def)
  have ins: "braced (accK k) (\<lambda>C. []) (b @ ?ph @ post) = braced (accK k) (\<lambda>C. []) b"
    if "pre = a @ b" "b \<noteq> []" for a b
    using that(2) by (intro inside_key accK_no_open [OF k]) simp_all
  have "replaceAll re [] [] (pre @ ?ph @ post)
          = replaceAll re [] [] pre @ replaceAll re [] [] (?ph @ post)"
  proof (rule replaceAll_append_plain)
    show "matchHere re t = braced (accK k) (\<lambda>C. []) t" for t by (rule re)
    show "braced (accK k) (\<lambda>C. []) (b @ ?ph @ post) = braced (accK k) (\<lambda>C. []) b"
      if "pre = a @ b" "b \<noteq> []" for a b using that by (rule ins)
    show "CHR ''$'' \<notin> set []" by simp
  qed
  also have "replaceAll re [] [] (?ph @ post) = replaceAll re [] ([] @ ?ph) post"
    using replaceAll_placeholder [of re "accK k" "\<lambda>C. []" ?C "[]" "[]" post, OF re cc acc]
    by simp
  also have "\<dots> = replaceAll re [] [] post" by (rule replaceAll_plain_sc) simp
  finally have "replaceAll re [] [] (pre @ ?ph @ post)
                  = replaceAll re [] [] pre @ replaceAll re [] [] post" .
  then show ?thesis using p v by (simp add: falsy_orEmpty)
qed

lemma safeVariables_keeps:
  "(k, v) \<in> set variables \<Longrightarrow> v \<noteq> JNull \<Longrightarrow> v \<noteq> JUndefined \<Longrightarrow> (k, v) \<in> set (safeVariables variables)"
  by (force simp: safeVariables_def)

lemma safeVariables_nullish:
  "(k, v) \<in> set variables \<Longrightarrow> v = JNull \<or> v = JUndefined \<Longrightarrow> (k, JStr []) \<in> set (safeVariables variables)"
  by (force simp: safeVariables_def)

section \<open>Extraction when a header or footer cannot be read\<close>

lemma set_addVariable: "set vs \<subseteq> set (addVariable n vs)"
  by (auto simp: addVariable_def)

lemma set_scanVariables: "set vs \<subseteq> set (scanVariables t vs)"
proof -
  have "set vs \<subseteq> set (foldl (\<lambda>vs captured. addVariable (trim captured) vs) vs cs)" for cs
  proof (induction cs arbitrary: vs)
    case Nil
    show ?case by simp
  next
    case (Cons c cs)
    have "set vs \<subseteq> set (addVariable (trim c) vs)" by (rule set_addVariable)
    also have "\<dots> \<subseteq> set (foldl (\<lambda>vs captured. addVariable (trim captured) vs)
                          (addVariable (trim c) vs) cs)" by (rule Cons.IH)
    finally show ?case by simp
  qed
  then show ?thesis by (simp add: scanVariables_def)
qed

lemma set_scanHeaderFooter: "set vs \<subseteq> set (scanHeaderFooter fs vs)"
proof (induction fs vs rule: scanHeaderFooter.induct)
  case (3 xml fs variables)
  have "set variables \<subseteq> set (scanVariables (stripTags xml) variables)"
    by (rule set_scanVariables)
  with 3 show ?case by auto
qed simp_all

lemma scanHeaderFooter_until_throw:
  "scanHeaderFooter (map Inr xmls @ Inl message # rest) vs
     = foldl (\<lambda>vs xml. scanVariables (stripTags xml) vs) vs xmls"
  by (induction xmls arbitrary: vs) simp_all

lemma scanHeaderFooter_all:
  "scanHeaderFooter (map Inr xmls) vs
     = foldl (\<lambda>vs xml. scanVariables (stripTags xml) vs) vs xmls"
  by (induction xmls arbitrary: vs) simp_all

text \<open>
  Claim C8, as stated, fails: the body holds \<open>{{A}}\<close>, the first header holds \<open>{{B}}\<close> and
  the reading of the second file throws. Extraction returns normally, but with \<open>A\<close> and
  \<open>B\<close>, not with the variables of the body alone.
\<close>

theorem header_footer_failure_counterexample:
  "extractTextAndVariables (Inr (''{{A}}'', ()))
      (Inr [Inr ''<w:t>{{B}}</w:t>'', Inl ''corrupted zip''])
     = Inr (''{{A}}'', [''A'', ''B''], ())
   \<and> scanVariables ''{{A}}'' [] = [''A'']"
  by (simp add: extractTextAndVariables_def scanVariables_def variableRegex_def
      addVariable_def trim_def isSpace_def isChr_def isNotChr_def took_def stripTags_def
      tagRegex_def)

text \<open>
  Claim C8, amended. When the body text is extracted, extraction returns normally whatever
  happens while the headers and footers are read, and its result contains the variables
  of the body. When the archive cannot be opened, or the first header or footer cannot be
  read, the result is the variable set of the body text alone; when a later one cannot be
  read, it is that set extended by the variables of the headers and footers read before
  the failure.
\<close>

theorem header_footer_failure:
  "extractTextAndVariables (Inr (text, messages)) (Inl message)
     = Inr (text, scanVariables text [], messages)
   \<and> extractTextAndVariables (Inr (text, messages)) (Inr (Inl message # rest))
     = Inr (text, scanVariables text [], messages)
   \<and> extractTextAndVariables (Inr (text, messages)) (Inr (map Inr xmls @ Inl message # rest))
     = Inr (text, foldl (\<lambda>vs xml. scanVariables (stripTags xml) vs) (scanVariables text []) xmls,
            messages)
   \<and> (\<exists>variables. extractTextAndVariables (Inr (text, messages)) headerFooter
                      = Inr (text, variables, messages)
                   \<and> set (scanVariables text []) \<subseteq> set variables)"
proof (intro conjI)
  show "\<exists>variables. extractTextAndVariables (Inr (text, messages)) headerFooter
                      = Inr (text, variables, messages)
                   \<and> set (scanVariables text []) \<subseteq> set variables"
    by (cases headerFooter) (simp_all add: extractTextAndVariables_def set_scanHeaderFooter)
qed (simp_all add: extractTextAndVariables_def scanHeaderFooter_until_throw)

theorem header_footer_failure_witness:
  "extractTextAndVariables (Inr (''{{A}} {{ A }}'', ())) (Inl ''not a zip file'')
     = Inr (''{{A}} {{ A }}'', [''A''], ())
   \<and> extractTextAndVariables (Inr (''{{A}} {{ A }}'', ()))
       (Inr [Inr ''<w:t>{{B}}</w:t>'', Inl ''corrupted zip'', Inr ''{{C}}''])
     = Inr (''{{A}} {{ A }}'', [''A'', ''B''], ())"
proof -
  have s: "scanVariables ''{{A}} {{ A }}'' [] = [''A'']"
    by (simp add: scanVariables_def variableRegex_def addVariable_def trim_def isSpace_def
        isChr_def isNotChr_def took_def)
  have h: "scanVariables (stripTags ''<w:t>{{B}}</w:t>'') [''A''] = [''A'', ''B'']"
    by (simp add: scanVariables_def variableRegex_def addVariable_def trim_def isSpace_def
        isChr_def isNotChr_def took_def stripTags_def tagRegex_def)
  show ?thesis
    using header_footer_failure [of "''{{A}} {{ A }}''" "()" "''not a zip file''" "[]"
        "[]" "Inl ''not a zip file''"]
      header_footer_failure [of "''{{A}} {{ A }}''" "()" "''corrupted zip''" "[Inr ''{{C}}'']"
        "[''<w:t>{{B}}</w:t>'']" "Inl ''corrupted zip''"]
    by (simp add: s h)
qed

section \<open>Substitution and round trip\<close>

text \<open>
  Claim C4, at the text \<open>{{a+b}}\<close> with the ValueMap \<open>{"a+b": "v"}\<close>: extraction yields the
  name \<open>a+b\<close>; the name is pasted into the pattern unescaped, where \<open>a+\<close> means one or more
  \<open>a\<close>, so the pattern does not match the placeholder and substitution returns the text
  as it was; extracting again yields \<open>a+b\<close> once more, not the empty set.
\<close>

theorem round_trip_failing_input:
  "scanVariables ''{{a+b}}'' [] = [''a+b'']
   \<and> replaceVariables ''{{a+b}}'' [(''a+b'', JStr ''v'')] = Some ''{{a+b}}''
   \<and> scanVariables ''{{a+b}}'' [] \<noteq> []"
  by (simp add: scanVariables_def variableRegex_def addVariable_def trim_def isSpace_def
      isChr_def isNotChr_def took_def placeholderRegex_def atomOf_def syntaxChars_def
      quantChars_def quantOf_def orEmpty_def)

text \<open>
  The value is read as a replacement pattern: the value \<open>$&\<close>, which stands for the
  matched text, puts the placeholder back.
\<close>

lemma round_trip_dollar:
  "scanVariables ''{{X}}'' [] = [''X'']
   \<and> replaceVariables ''{{X}}'' [(''X'', JStr ''$&'')] = Some ''{{X}}''"
  by (simp add: scanVariables_def variableRegex_def addVariable_def trim_def isSpace_def
      isChr_def isNotChr_def took_def placeholderRegex_def atomOf_def syntaxChars_def
      quantChars_def quantOf_def orEmpty_def)

text \<open>
  Claim C1, as stated, fails: \<open>replaceVariables\<close> goes through the keys of the ValueMap
  and never looks for other placeholders, so \<open>{{Location}}\<close> stays in the text.
\<close>

theorem unmapped_counterexample:
  "replaceVariables ''Dear {{Name}}, meeting at {{Location}}.'' [(''Name'', JStr ''Alice'')]
     = Some ''Dear Alice, meeting at {{Location}}.''
   \<and> replaceVariables ''Dear {{Name}}, meeting at {{Location}}.'' [(''Name'', JStr ''Alice'')]
     \<noteq> Some ''Dear Alice, meeting at .''"
  by (simp add: placeholderRegex_def isChr_def isSpace_def orEmpty_def took_def atomOf_def
      syntaxChars_def quantChars_def)

section \<open>Placeholders that stay, names that are extracted, values that vanish\<close>

lemma replaceVariables_total:
  "\<forall>(k, v) \<in> set variables. literalName k \<Longrightarrow> \<exists>r. replaceVariables t variables = Some r"
proof (induction variables arbitrary: t)
  case Nil
  show ?case by simp
next
  case (Cons kv variables)
  obtain k v where kv: "kv = (k, v)" by (cases kv)
  then have "literalName k" using Cons.prems by simp
  then obtain re where "placeholderRegex k = Some re" using placeholderRegex_braced by blast
  moreover have "\<exists>r. replaceVariables (replaceAll re (toString (orEmpty v)) [] t) variables = Some r"
    using Cons.prems by (intro Cons.IH) simp
  ultimately show ?case using kv by simp
qed

lemma kept_in_place:
  assumes "\<forall>(k, v) \<in> set variables.
             literalName k \<and> trim k \<noteq> trim name \<and> CHR ''$'' \<notin> set (toString (orEmpty v))"
    and "list_all isSpace ws1" and "list_all isSpace ws2"
    and "CHR ''{'' \<notin> set name" and "CHR ''}'' \<notin> set name"
  shows "\<exists>a b. replaceVariables pre variables = Some a \<and> replaceVariables post variables = Some b
           \<and> replaceVariables (pre @ ''{{'' @ ws1 @ name @ ws2 @ ''}}'' @ post) variables
               = Some (a @ ''{{'' @ ws1 @ name @ ws2 @ ''}}'' @ b)"
  using assms(1)
proof (induction variables arbitrary: pre post)
  case Nil
  show ?case by simp
next
  case (Cons kv variables)
  obtain k v where kv: "kv = (k, v)" by (cases kv)
  have k: "literalName k" and t: "trim k \<noteq> trim name"
    and v: "CHR ''$'' \<notin> set (toString (orEmpty v))"
    using Cons.prems kv by auto
  let ?v = "toString (orEmpty v)"
  from replaceAll_keeps_plain [OF k t assms(2-5) v, of pre post]
  obtain re where
    p: "placeholderRegex k = Some re" and
    r: "replaceAll re ?v [] (pre @ ''{{'' @ ws1 @ name @ ws2 @ ''}}'' @ post)
          = replaceAll re ?v [] pre @ ''{{'' @ ws1 @ name @ ws2 @ ''}}'' @ replaceAll re ?v [] post"
    by auto
  have "\<exists>a b. replaceVariables (replaceAll re ?v [] pre) variables = Some a
           \<and> replaceVariables (replaceAll re ?v [] post) variables = Some b
           \<and> replaceVariables (replaceAll re ?v [] pre @ ''{{'' @ ws1 @ name @ ws2 @ ''}}''
                                @ replaceAll re ?v [] post) variables
               = Some (a @ ''{{'' @ ws1 @ name @ ws2 @ ''}}'' @ b)"
    using Cons.prems by (intro Cons.IH) auto
  then show ?case using p r kv by simp
qed

lemma kept_somewhere:
  assumes "\<forall>(k, v) \<in> set variables. literalName k \<and> trim k \<noteq> trim name"
    and "list_all isSpace ws1" and "list_all isSpace ws2"
    and "CHR ''{'' \<notin> set name" and "CHR ''}'' \<notin> set name"
  shows "\<exists>pre' post'.
           replaceVariables (pre @ ''{{'' @ ws1 @ name @ ws2 @ ''}}'' @ post) variables
             = Some (pre' @ ''{{'' @ ws1 @ name @ ws2 @ ''}}'' @ post')"
  using assms(1)
proof (induction variables arbitrary: pre post)
  case Nil
  show ?case by auto
next
  case (Cons kv variables)
  obtain k v where kv: "kv = (k, v)" by (cases kv)
  have k: "literalName k" and t: "trim k \<noteq> trim name" using Cons.prems kv by auto
  from replaceAll_keeps [OF k t assms(2-5), of "toString (orEmpty v)" pre post]
  obtain re pre1 post1 where
    p: "placeholderRegex k = Some re" and
    r: "replaceAll re (toString (orEmpty v)) [] (pre @ ''{{'' @ ws1 @ name @ ws2 @ ''}}'' @ post)
          = pre1 @ ''{{'' @ ws1 @ name @ ws2 @ ''}}'' @ post1"
    by auto
  have "\<exists>pre' post'.
          replaceVariables (pre1 @ ''{{'' @ ws1 @ name @ ws2 @ ''}}'' @ post1) variables
            = Some (pre' @ ''{{'' @ ws1 @ name @ ws2 @ ''}}'' @ post')"
    using Cons.prems by (intro Cons.IH) auto
  then show ?case using p r kv by simp
qed

lemma replaceVariables_absent:
  assumes "\<forall>(k, v) \<in> set variables. literalName k \<and>
             (\<forall>pre ws1 ws2 post. list_all isSpace ws1 \<and> list_all isSpace ws2 \<longrightarrow>
                t \<noteq> pre @ ''{{'' @ ws1 @ k @ ws2 @ ''}}'' @ post)"
  shows "replaceVariables t variables = Some t"
  using assms
proof (induction variables)
  case Nil
  show ?case by simp
next
  case (Cons kv variables)
  obtain k v where kv: "kv = (k, v)" by (cases kv)
  have k: "literalName k"
    and n: "\<forall>pre ws1 ws2 post. list_all isSpace ws1 \<and> list_all isSpace ws2 \<longrightarrow>
              t \<noteq> pre @ ''{{'' @ ws1 @ k @ ws2 @ ''}}'' @ post"
    using Cons.prems kv by auto
  from replaceAll_absent [OF k n, of "toString (orEmpty v)"]
  obtain re where p: "placeholderRegex k = Some re"
    and r: "replaceAll re (toString (orEmpty v)) [] t = t" by blast
  have "replaceVariables t variables = Some t"
    using Cons.prems by (intro Cons.IH) auto
  then show ?case using p r kv by simp
qed

lemma replaceVariables_append:
  "replaceVariables t (xs @ ys)
     = (case replaceVariables t xs of None \<Rightarrow> None | Some t' \<Rightarrow> replaceVariables t' ys)"
proof (induction xs arbitrary: t)
  case Nil
  show ?case by simp
next
  case (Cons x xs)
  obtain k v where "x = (k, v)" by (cases x)
  then show ?case using Cons by (simp split: option.split)
qed
lemma replaceVariables_deletes_at:
  assumes k: "literalName k" and w: "list_all isSpace ws1" "list_all isSpace ws2"
    and v: "\<not> truthy v"
    and x: "replaceVariables t xs = Some (pre @ ''{{'' @ ws1 @ k @ ws2 @ ''}}'' @ post)"
  shows "\<exists>a b. replaceVariables pre [(k, v)] = Some a \<and> replaceVariables post [(k, v)] = Some b
           \<and> replaceVariables t (xs @ (k, v) # ys) = replaceVariables (a @ b) ys"
proof -
  let ?t = "pre @ ''{{'' @ ws1 @ k @ ws2 @ ''}}'' @ post"
  from replaceVariables_deletes [OF k w v, of pre post]
  obtain a b where a: "replaceVariables pre [(k, v)] = Some a"
    and b: "replaceVariables post [(k, v)] = Some b"
    and c: "replaceVariables ?t [(k, v)] = Some (a @ b)"
    by blast
  have "replaceVariables t (xs @ (k, v) # ys) = replaceVariables ?t ([(k, v)] @ ys)"
    using x by (simp add: replaceVariables_append [of t xs])
  also have "\<dots> = replaceVariables (a @ b) ys"
    using c by (simp only: replaceVariables_append [of ?t "[(k, v)]"] option.case)
  finally show ?thesis using a b by blast
qed

text \<open>
  The condition on the name in the claim below cannot be dropped: in \<open>{{a{{Name}}\<close> the
  placeholder that extraction sees has the name \<open>a{{Name\<close>, which is not a key of
  \<open>{Name: "Alice"}\<close>, and yet substitution changes it, since the pattern of the key
  matches the inner \<open>{{Name}}\<close>.
\<close>

lemma unmapped_brace_in_name:
  "scanVariables ''{{a{{Name}}'' [] = [''a{{Name'']
   \<and> replaceVariables ''{{a{{Name}}'' [(''Name'', JStr ''Alice'')] = Some ''{{aAlice''"
  by (simp add: scanVariables_def variableRegex_def addVariable_def trim_def isSpace_def
      isChr_def isNotChr_def took_def placeholderRegex_def atomOf_def syntaxChars_def
      quantChars_def quantOf_def orEmpty_def)

text \<open>
  Claim C1, amended. Substitution in a text replaces the placeholders of the keys of the
  ValueMap and no others. For every text and every ValueMap whose keys are literal names
  (no character of a key has a meaning of its own in a regular expression):

  \<^item> it returns a text, it raises no error;

  \<^item> a text in which no placeholder of a key occurs (no \<open>{{\<close>, white space, the key,
    white space, \<open>}}\<close>) is returned unchanged;

  \<^item> when no replacement value holds a \<open>$\<close> (\<open>String.replace\<close> reads the \<open>$\<close> sequences
    of a replacement as patterns), a placeholder whose name holds no brace and is not a
    key, up to surrounding white space, is left in place as it stands, markers and inner
    white space included: the result is the text before it as substitution leaves it on
    its own, then the placeholder, then the text behind it as substitution leaves it on
    its own;

  \<^item> whatever the replacement values, such a placeholder still stands in the result as
    it was.

  In particular, substituting \<open>{Name: "Alice"}\<close> into
  \<open>Dear {{Name}}, meeting at {{Location}}.\<close> yields
  \<open>Dear Alice, meeting at {{Location}}.\<close>
\<close>

theorem unmapped_kept:
  "((\<forall>(k, v) \<in> set variables. literalName k) \<longrightarrow>
      (\<exists>r. replaceVariables text variables = Some r))
   \<and> ((\<forall>(k, v) \<in> set variables. literalName k \<and>
          (\<forall>p s1 s2 q. list_all isSpace s1 \<and> list_all isSpace s2 \<longrightarrow>
             text \<noteq> p @ ''{{'' @ s1 @ k @ s2 @ ''}}'' @ q)) \<longrightarrow>
      replaceVariables text variables = Some text)
   \<and> ((\<forall>(k, v) \<in> set variables. literalName k \<and> trim k \<noteq> trim name \<and>
          CHR ''$'' \<notin> set (toString (orEmpty v))) \<and>
       list_all isSpace ws1 \<and> list_all isSpace ws2 \<and>
       CHR ''{'' \<notin> set name \<and> CHR ''}'' \<notin> set name \<longrightarrow>
      (\<exists>a b. replaceVariables pre variables = Some a \<and> replaceVariables post variables = Some b \<and>
         replaceVariables (pre @ ''{{'' @ ws1 @ name @ ws2 @ ''}}'' @ post) variables
           = Some (a @ ''{{'' @ ws1 @ name @ ws2 @ ''}}'' @ b)))
   \<and> ((\<forall>(k, v) \<in> set variables. literalName k \<and> trim k \<noteq> trim name) \<and>
       list_all isSpace ws1 \<and> list_all isSpace ws2 \<and>
       CHR ''{'' \<notin> set name \<and> CHR ''}'' \<notin> set name \<longrightarrow>
      (\<exists>a b. replaceVariables (pre @ ''{{'' @ ws1 @ name @ ws2 @ ''}}'' @ post) variables
                = Some (a @ ''{{'' @ ws1 @ name @ ws2 @ ''}}'' @ b)))
   \<and> replaceVariables ''Dear {{Name}}, meeting at {{Location}}.'' [(''Name'', JStr ''Alice'')]
       = Some ''Dear Alice, meeting at {{Location}}.''"
proof (intro conjI impI)
  show "\<exists>r. replaceVariables text variables = Some r"
    if "\<forall>(k, v) \<in> set variables. literalName k"
    using that by (rule replaceVariables_total)
  show "replaceVariables text variables = Some text"
    if "\<forall>(k, v) \<in> set variables. literalName k \<and>
          (\<forall>p s1 s2 q. list_all isSpace s1 \<and> list_all isSpace s2 \<longrightarrow>
             text \<noteq> p @ ''{{'' @ s1 @ k @ s2 @ ''}}'' @ q)"
    using that by (rule replaceVariables_absent)
  show "\<exists>a b. replaceVariables pre variables = Some a \<and> replaceVariables post variables = Some b \<and>
         replaceVariables (pre @ ''{{'' @ ws1 @ name @ ws2 @ ''}}'' @ post) variables
           = Some (a @ ''{{'' @ ws1 @ name @ ws2 @ ''}}'' @ b)"
    if "(\<forall>(k, v) \<in> set variables. literalName k \<and> trim k \<noteq> trim name \<and>
          CHR ''$'' \<notin> set (toString (orEmpty v))) \<and>
       list_all isSpace ws1 \<and> list_all isSpace ws2 \<and>
       CHR ''{'' \<notin> set name \<and> CHR ''}'' \<notin> set name"
    using that by (intro kept_in_place) simp_all
  show "\<exists>a b. replaceVariables (pre @ ''{{'' @ ws1 @ name @ ws2 @ ''}}'' @ post) variables
                = Some (a @ ''{{'' @ ws1 @ name @ ws2 @ ''}}'' @ b)"
    if "(\<forall>(k, v) \<in> set variables. literalName k \<and> trim k \<noteq> trim name) \<and>
       list_all isSpace ws1 \<and> list_all isSpace ws2 \<and>
       CHR ''{'' \<notin> set name \<and> CHR ''}'' \<notin> set name"
    using that by (intro kept_somewhere) simp_all
  show "replaceVariables ''Dear {{Name}}, meeting at {{Location}}.'' [(''Name'', JStr ''Alice'')]
       = Some ''Dear Alice, meeting at {{Location}}.''"
    by (simp add: placeholderRegex_def isChr_def isSpace_def orEmpty_def took_def atomOf_def
      syntaxChars_def quantChars_def)
qed

theorem unmapped_kept_witness:
  "replaceVariables ''Dear {{Name}}, meeting at {{Location}}.'' [(''Name'', JStr ''Alice'')]
     = Some ''Dear Alice, meeting at {{Location}}.''
   \<and> replaceVariables ''meeting at {{ Location }}.'' [(''Name'', JStr ''Alice'')]
     = Some ''meeting at {{ Location }}.''
   \<and> (\<exists>a b. replaceVariables ''{{Name}} and {{Location}}'' [(''Name'', JStr [CHR ''$'', CHR 0x27])]
              = Some (a @ ''{{Location}}'' @ b))
   \<and> replaceVariables ''{{Name}} and {{Location}}'' [(''Name'', JStr [CHR ''$'', CHR 0x27])]
     = Some '' and {{Location}} and {{Location}}''"
proof -
  let ?vs = "[(''Name'', JStr ''Alice'')]"
  let ?ws = "[(''Name'', JStr [CHR ''$'', CHR 0x27])]"
  have l: "literalName ''Name''"
    by (simp add: syntaxChars_def)
  have t: "trim ''Name'' \<noteq> trim ''Location''"
    by (simp add: trim_def isSpace_def)
  have d: "CHR ''$'' \<notin> set (toString (orEmpty (JStr ''Alice'')))"
    by (simp add: orEmpty_def)
  \<comment> \<open>a placeholder that is not a key, between a text with a key and a text without\<close>
  have h: "(\<forall>(k, v) \<in> set ?vs. literalName k \<and> trim k \<noteq> trim ''Location'' \<and>
          CHR ''$'' \<notin> set (toString (orEmpty v))) \<and>
       list_all isSpace [] \<and> list_all isSpace [] \<and>
       CHR ''{'' \<notin> set ''Location'' \<and> CHR ''}'' \<notin> set ''Location''"
    using l t d by simp
  have a: "replaceVariables ''Dear {{Name}}, meeting at '' ?vs = Some ''Dear Alice, meeting at ''"
    and b: "replaceVariables ''.'' ?vs = Some ''.''"
    by (simp_all add: placeholderRegex_def isChr_def isSpace_def orEmpty_def took_def atomOf_def
      syntaxChars_def quantChars_def)
  have "\<exists>x y. replaceVariables ''Dear {{Name}}, meeting at '' ?vs = Some x \<and>
          replaceVariables ''.'' ?vs = Some y \<and>
          replaceVariables (''Dear {{Name}}, meeting at '' @ ''{{'' @ [] @ ''Location'' @ [] @ ''}}''
                              @ ''.'') ?vs
            = Some (x @ ''{{'' @ [] @ ''Location'' @ [] @ ''}}'' @ y)"
    using unmapped_kept [where variables = "?vs" and name = "''Location''" and ?ws1.0 = "[]"
        and ?ws2.0 = "[]" and pre = "''Dear {{Name}}, meeting at ''" and post = "''.''"] h
    by blast
  then have 1: "replaceVariables ''Dear {{Name}}, meeting at {{Location}}.'' ?vs
                  = Some ''Dear Alice, meeting at {{Location}}.''"
    using a b by auto
  \<comment> \<open>a text without a placeholder of the key\<close>
  have n: "\<forall>p s1 s2 q. list_all isSpace s1 \<and> list_all isSpace s2 \<longrightarrow>
             ''meeting at {{ Location }}.'' \<noteq> p @ ''{{'' @ s1 @ ''Name'' @ s2 @ ''}}'' @ q"
  proof (intro allI impI notI)
    fix p s1 s2 q :: string
    assume "''meeting at {{ Location }}.'' = p @ ''{{'' @ s1 @ ''Name'' @ s2 @ ''}}'' @ q"
    then have "set ''meeting at {{ Location }}.'' = set (p @ ''{{'' @ s1 @ ''Name'' @ s2 @ ''}}'' @ q)"
      by (rule arg_cong)
    moreover have "CHR ''N'' \<in> set (p @ ''{{'' @ s1 @ ''Name'' @ s2 @ ''}}'' @ q)" by simp
    ultimately have "CHR ''N'' \<in> set ''meeting at {{ Location }}.''" by (simp only:)
    then show False by simp
  qed
  have 2: "replaceVariables ''meeting at {{ Location }}.'' ?vs = Some ''meeting at {{ Location }}.''"
    using unmapped_kept [where variables = "?vs" and ?text = "''meeting at {{ Location }}.''"]
      l n by simp
  \<comment> \<open>a value that stands for the text behind the match\<close>
  have g: "(\<forall>(k, v) \<in> set ?ws. literalName k \<and> trim k \<noteq> trim ''Location'') \<and>
       list_all isSpace [] \<and> list_all isSpace [] \<and>
       CHR ''{'' \<notin> set ''Location'' \<and> CHR ''}'' \<notin> set ''Location''"
    using l t by simp
  have "\<exists>x y. replaceVariables (''{{Name}} and '' @ ''{{'' @ [] @ ''Location'' @ [] @ ''}}'' @ []) ?ws
                = Some (x @ ''{{'' @ [] @ ''Location'' @ [] @ ''}}'' @ y)"
    using unmapped_kept [where variables = "?ws" and name = "''Location''" and ?ws1.0 = "[]"
        and ?ws2.0 = "[]" and pre = "''{{Name}} and ''" and post = "[]"] g
    by blast
  then have 3: "\<exists>a b. replaceVariables ''{{Name}} and {{Location}}'' ?ws
                        = Some (a @ ''{{Location}}'' @ b)"
    by simp
  have 4: "replaceVariables ''{{Name}} and {{Location}}'' ?ws
             = Some '' and {{Location}} and {{Location}}''"
    by (simp add: placeholderRegex_def isChr_def isSpace_def orEmpty_def took_def atomOf_def
      syntaxChars_def quantChars_def)
  from 1 2 3 4 show ?thesis by blast
qed






end
